theory Spec2Isabelle
  imports Complex_Main "HOL-Library.Word" "HOL-Library.Log_Nat"
begin

section \<open>Strings and the platform's Unicode functions\<close>

text \<open>
  A JavaScript string is a sequence of 16-bit UTF-16 code units; regular expressions
  without the \<^verbatim>\<open>u\<close> flag (all three of \<^verbatim>\<open>slugify\<close>) work on code units.
  \<open>js\<close> writes a string literal of the source as code units.
\<close>

type_synonym code_unit = "16 word"
type_synonym jsstring = "code_unit list"

definition js :: "string \<Rightarrow> jsstring" where
  "js s = map (\<lambda>c. of_nat (of_char c)) s"

text \<open>
  \<^verbatim>\<open>String.prototype.toLowerCase\<close> and \<^verbatim>\<open>String.prototype.normalize\<close> belong to
  the platform, and their Unicode tables are no part of the repository: they are
  parameters of the model. Both are total on every string.
\<close>

record platform =
  toLowerCase :: "jsstring \<Rightarrow> jsstring"
  normalize_NFD :: "jsstring \<Rightarrow> jsstring"

text \<open>
  The platform's functions on strings of Basic Latin (U+0000 to U+007F) in which a
  letter may be followed by one combining mark: lower-casing maps A-Z to a-z and leaves
  every other code unit alone, and canonical decomposition changes nothing, since
  nothing there is composed and a single mark needs no reordering. Used for evaluating
  the model on such strings.
\<close>

definition lower_unit :: "code_unit \<Rightarrow> code_unit" where
  "lower_unit c = (if 0x41 \<le> c \<and> c \<le> 0x5A then c + 0x20 else c)"

definition basic_latin :: platform where
  "basic_latin = \<lparr> toLowerCase = map lower_unit, normalize_NFD = (\<lambda>s. s) \<rparr>"

section \<open>IdentifierCodec: slugify and makeFieldId\<close>

definition is_combining_mark :: "code_unit \<Rightarrow> bool" where
  \<comment> \<open>the class of the code units U+0300 to U+036F\<close>
  "is_combining_mark c \<longleftrightarrow> 0x0300 \<le> c \<and> c \<le> 0x036F"

definition is_alnum :: "code_unit \<Rightarrow> bool" where
  \<comment> \<open>the class \<^verbatim>\<open>[a-z0-9]\<close>\<close>
  "is_alnum c \<longleftrightarrow> (0x61 \<le> c \<and> c \<le> 0x7A) \<or> (0x30 \<le> c \<and> c \<le> 0x39)"

definition hyphen :: code_unit where
  "hyphen = 0x2D"

text \<open>The first \<^verbatim>\<open>.replace\<close>, of the class U+0300 to U+036F by the empty string, global:
  every match, a single code unit, is deleted.\<close>

fun replace_marks :: "jsstring \<Rightarrow> jsstring" where
  "replace_marks [] = []"
| "replace_marks (c # cs) =
     (if is_combining_mark c then replace_marks cs else c # replace_marks cs)"

text \<open>
  \<^verbatim>\<open>.replace(/[^a-z0-9]+/g, '-')\<close>: scanning from the left, a code unit of the class
  starts a match, the greedy \<^verbatim>\<open>+\<close> extends it over all following code units of the
  class, the match is replaced by one hyphen and the scan goes on behind it.
\<close>

function replace_runs :: "jsstring \<Rightarrow> jsstring" where
  "replace_runs [] = []"
| "replace_runs (c # cs) =
     (if is_alnum c then c # replace_runs cs
      else hyphen # replace_runs (dropWhile (\<lambda>d. \<not> is_alnum d) cs))"
  by pat_completeness auto
termination
  by (relation "measure length") (auto simp: length_dropWhile_le less_Suc_eq_le)

text \<open>
  \<^verbatim>\<open>.replace(/(^-|-$)/g, '')\<close>: \<^verbatim>\<open>^-\<close> matches a hyphen at index 0 only and
  \<^verbatim>\<open>-$\<close> a hyphen at the last index only, so at most one hyphen goes at each end
  (the string \<^verbatim>\<open>-\<close> has one match).
\<close>

definition replace_edges :: "jsstring \<Rightarrow> jsstring" where
  "replace_edges s =
     (let s1 = (if s \<noteq> [] \<and> hd s = hyphen then tl s else s)
      in if s1 \<noteq> [] \<and> last s1 = hyphen then butlast s1 else s1)"

definition slugify :: "platform \<Rightarrow> jsstring \<Rightarrow> jsstring" where
  "slugify U v =
     replace_edges (replace_runs (replace_marks (normalize_NFD U (toLowerCase U v))))"

text \<open>
  \<^verbatim>\<open>`step-${pageIndex}-${slugify(question)}`\<close>. Both call sites pass an index into
  \<^verbatim>\<open>formPages\<close>, a natural number, which the template literal prints in decimal
  (an array index is below \<open>2 ^ 32\<close>; the decimal form holds below \<open>10 ^ 21\<close>).
\<close>

definition digit_unit :: "nat \<Rightarrow> code_unit" where
  "digit_unit d = 0x30 + of_nat d"

function Number_toString :: "nat \<Rightarrow> jsstring" where
  "Number_toString n =
     (if n < 10 then [digit_unit n] else Number_toString (n div 10) @ [digit_unit (n mod 10)])"
  by pat_completeness auto
termination
  by (relation "measure id") auto

declare Number_toString.simps [simp del]

definition makeFieldId :: "platform \<Rightarrow> nat \<Rightarrow> jsstring \<Rightarrow> jsstring" where
  "makeFieldId U pageIndex question =
     js ''step-'' @ Number_toString pageIndex @ js ''-'' @ slugify U question"

subsection \<open>The slug in words\<close>

text \<open>
  The maximal runs of a string with respect to a class of code units: each run lies
  wholly inside or wholly outside the class, and neighbouring runs differ.
\<close>

function runs :: "('a \<Rightarrow> bool) \<Rightarrow> 'a list \<Rightarrow> 'a list list" where
  "runs P [] = []"
| "runs P (x # xs) =
     (x # takeWhile (\<lambda>y. P y = P x) xs) # runs P (dropWhile (\<lambda>y. P y = P x) xs)"
  by pat_completeness auto
termination
  by (relation "measure (\<lambda>(P, xs). length xs)") (auto simp: length_dropWhile_le less_Suc_eq_le)

text \<open>
  The combining marks, in the words of the specification: the characters that Unicode
  classes as marks. Those of the Basic Multilingual Plane that are no part of a single
  script fill five blocks: Combining Diacritical Marks (U+0300 to U+036F), their
  extension (U+1AB0 to U+1ACE), their supplement (U+1DC0 to U+1DFF), the marks for
  symbols (U+20D0 to U+20F0) and the half marks (U+FE20 to U+FE2F). These are the class
  here; the marks of single scripts, which lie in the blocks of their scripts, would
  only add to it.
\<close>

definition spec_combining_mark :: "code_unit \<Rightarrow> bool" where
  "spec_combining_mark c \<longleftrightarrow>
     unat c \<in> {0x0300..0x036F} \<union> {0x1AB0..0x1ACE} \<union> {0x1DC0..0x1DFF}
       \<union> {0x20D0..0x20F0} \<union> {0xFE20..0xFE2F}"

definition spec_strip_marks :: "jsstring \<Rightarrow> jsstring" where
  \<comment> \<open>removal of combining marks\<close>
  "spec_strip_marks s = filter (\<lambda>c. \<not> spec_combining_mark c) s"

definition spec_alnum :: "code_unit \<Rightarrow> bool" where
  \<comment> \<open>the letters a to z (97 to 122) and the digits 0 to 9 (48 to 57)\<close>
  "spec_alnum c \<longleftrightarrow> unat c \<in> {97..122} \<union> {48..57}"

definition spec_hyphenate_runs :: "jsstring \<Rightarrow> jsstring" where
  \<comment> \<open>every run of characters outside [a-z0-9] becomes a single hyphen\<close>
  "spec_hyphenate_runs s =
     concat (map (\<lambda>r. if spec_alnum (hd r) then r else [hyphen]) (runs spec_alnum s))"

definition spec_trim_hyphens :: "jsstring \<Rightarrow> jsstring" where
  \<comment> \<open>all leading and all trailing hyphens are removed\<close>
  "spec_trim_hyphens s =
     rev (dropWhile (\<lambda>c. c = hyphen) (rev (dropWhile (\<lambda>c. c = hyphen) s)))"

definition spec_slug :: "platform \<Rightarrow> jsstring \<Rightarrow> jsstring" where
  "spec_slug U q =
     spec_trim_hyphens (spec_hyphenate_runs (spec_strip_marks
       (normalize_NFD U (toLowerCase U q))))"

text \<open>
  The same slug with one block of marks removed and no other: Combining Diacritical
  Marks, the code units 768 to 879. A mark of another block is a code unit outside
  [a-z0-9] like any other and belongs to a run.
\<close>

definition diacritical_block :: "code_unit \<Rightarrow> bool" where
  "diacritical_block c \<longleftrightarrow> unat c \<in> {768..879}"

definition block_strip_marks :: "jsstring \<Rightarrow> jsstring" where
  "block_strip_marks s = filter (\<lambda>c. \<not> diacritical_block c) s"

definition block_slug :: "platform \<Rightarrow> jsstring \<Rightarrow> jsstring" where
  "block_slug U q =
     spec_trim_hyphens (spec_hyphenate_runs (block_strip_marks
       (normalize_NFD U (toLowerCase U q))))"

section \<open>Numbers and parsed documents\<close>

text \<open>
  A JavaScript number is a double: a finite value, one of the two infinities, or NaN.
  A finite value is the rational it stands for (both zeros are \<open>Fin 0\<close>).
  \<^verbatim>\<open>Math.min\<close> and \<^verbatim>\<open>Math.max\<close> return one of their arguments; \<^verbatim>\<open>+\<close> and
  \<^verbatim>\<open>-\<close> round the exact result to the nearest double.
\<close>

datatype jsnum = Fin rat | PosInf | NegInf | NaN

fun js_le :: "jsnum \<Rightarrow> jsnum \<Rightarrow> bool" where
  "js_le NaN _ = False"
| "js_le _ NaN = False"
| "js_le NegInf _ = True"
| "js_le _ PosInf = True"
| "js_le (Fin a) (Fin b) = (a \<le> b)"
| "js_le PosInf _ = False"
| "js_le _ NegInf = False"

definition Math_min :: "jsnum \<Rightarrow> jsnum \<Rightarrow> jsnum" where
  "Math_min a b = (if a = NaN \<or> b = NaN then NaN else if js_le a b then a else b)"

definition Math_max :: "jsnum \<Rightarrow> jsnum \<Rightarrow> jsnum" where
  "Math_max a b = (if a = NaN \<or> b = NaN then NaN else if js_le a b then b else a)"

text \<open>
  Rounding to the nearest double, ties to the even significand (IEEE 754, binary64). A
  double has 53 significant bits; its unit in the last place is \<open>2 ^ (e - 52)\<close> for a
  value from \<open>2 ^ e\<close> up to \<open>2 ^ (e + 1)\<close>, and \<open>2 ^ - 1074\<close> below \<open>2 ^ - 1022\<close>.
  What rounds to \<open>2 ^ 1024\<close> or beyond, a value whose \<open>floor_log2\<close> is 1024 or more, is
  an infinity.
\<close>

definition floor_log2 :: "rat \<Rightarrow> int" where
  \<comment> \<open>for \<open>0 < a\<close>, the \<open>e\<close> with \<open>2 ^ e \<le> a < 2 ^ (e + 1)\<close>\<close>
  "floor_log2 a =
     (let d = bitlen (fst (quotient_of a)) - bitlen (snd (quotient_of a))
      in if 2 powi d \<le> a then d else d - 1)"

definition round_half_even :: "rat \<Rightarrow> int" where
  "round_half_even x =
     (let f = \<lfloor>x\<rfloor>; r = x - of_int f
      in if r < 1 / 2 then f else if 1 / 2 < r then f + 1 else if even f then f else f + 1)"

definition round_double :: "rat \<Rightarrow> jsnum" where
  "round_double r =
     (if r = 0 then Fin 0
      else
        let a = \<bar>r\<bar>;
            e = max (floor_log2 a) (- 1022);
            ulp = 2 powi (e - 52);
            v = of_int (round_half_even (a / ulp)) * ulp
        in if 1024 \<le> floor_log2 v then (if 0 < r then PosInf else NegInf)
           else Fin (if 0 < r then v else - v))"

text \<open>
  The sum of two numbers. An integer sum is kept as it is, which is what the rounding
  gives up to \<open>2 ^ 53\<close> (lemma \<open>round_double_of_int\<close>); the sums the program takes
  are of a step, which lies between 0 and the length of an array, and 1 or -1.
\<close>

fun js_add :: "jsnum \<Rightarrow> jsnum \<Rightarrow> jsnum" where
  "js_add NaN _ = NaN"
| "js_add _ NaN = NaN"
| "js_add PosInf NegInf = NaN"
| "js_add NegInf PosInf = NaN"
| "js_add PosInf _ = PosInf"
| "js_add _ PosInf = PosInf"
| "js_add NegInf _ = NegInf"
| "js_add _ NegInf = NegInf"
| "js_add (Fin a) (Fin b) =
     (if of_int \<lfloor>a + b\<rfloor> = a + b then Fin (a + b) else round_double (a + b))"

fun js_neg :: "jsnum \<Rightarrow> jsnum" where
  "js_neg (Fin a) = Fin (- a)"
| "js_neg PosInf = NegInf"
| "js_neg NegInf = PosInf"
| "js_neg NaN = NaN"

definition js_sub :: "jsnum \<Rightarrow> jsnum \<Rightarrow> jsnum" where
  "js_sub a b = js_add a (js_neg b)"

definition js_strict_eq :: "jsnum \<Rightarrow> jsnum \<Rightarrow> bool" where
  \<comment> \<open>\<^verbatim>\<open>===\<close> on numbers: NaN equals nothing\<close>
  "js_strict_eq a b \<longleftrightarrow> a \<noteq> NaN \<and> a = b"

text \<open>
  The values \<^verbatim>\<open>JSON.parse\<close> returns. An object is the list of its own properties
  in the order \<^verbatim>\<open>Object.entries\<close> lists them; every key occurs once. A number
  literal too large for a double parses to an infinity (\<^verbatim>\<open>1e400\<close>).
\<close>

datatype json =
    JNull
  | JBool bool
  | JNum jsnum
  | JStr jsstring
  | JArr "json list"
  | JObj "(jsstring \<times> json) list"

text \<open>
  \<^verbatim>\<open>JSON.parse\<close> and \<^verbatim>\<open>JSON.stringify\<close> belong to the platform. A text is
  modelled by what \<^verbatim>\<open>JSON.parse\<close> makes of it: a syntax error, or the value it
  denotes. \<^verbatim>\<open>JSON.stringify\<close> writes a text that denotes the value it was given,
  with \<^verbatim>\<open>null\<close> in the place of every number that is not finite.
\<close>

datatype filetext = Malformed | Denotes json

datatype exn =
    SyntaxError
  | TypeError
  | Error jsstring

definition JSON_parse :: "filetext \<Rightarrow> exn + json" where
  "JSON_parse t = (case t of Malformed \<Rightarrow> Inl SyntaxError | Denotes v \<Rightarrow> Inr v)"

primrec stringify_value :: "json \<Rightarrow> json" where
  "stringify_value JNull = JNull"
| "stringify_value (JBool b) = JBool b"
| "stringify_value (JNum n) = (case n of Fin r \<Rightarrow> JNum (Fin r) | _ \<Rightarrow> JNull)"
| "stringify_value (JStr s) = JStr s"
| "stringify_value (JArr vs) = JArr (map stringify_value vs)"
| "stringify_value (JObj kvs) = JObj (map (map_prod id stringify_value) kvs)"

definition JSON_stringify :: "json \<Rightarrow> filetext" where
  "JSON_stringify v = Denotes (stringify_value v)"

fun truthy :: "json \<Rightarrow> bool" where
  "truthy JNull = False"
| "truthy (JBool b) = b"
| "truthy (JNum n) = (n \<noteq> NaN \<and> n \<noteq> Fin 0)"
| "truthy (JStr s) = (s \<noteq> [])"
| "truthy (JArr vs) = True"
| "truthy (JObj kvs) = True"

fun typeof_object :: "json \<Rightarrow> bool" where
  \<comment> \<open>\<^verbatim>\<open>typeof v === 'object'\<close>\<close>
  "typeof_object JNull = True"
| "typeof_object (JArr vs) = True"
| "typeof_object (JObj kvs) = True"
| "typeof_object _ = False"

text \<open>
  Reading the property \<^verbatim>\<open>answers\<close> or \<^verbatim>\<open>currentStep\<close> of an object or an array;
  \<open>None\<close> is \<^verbatim>\<open>undefined\<close>. Neither name is an array index or a property that
  arrays and objects inherit.
\<close>

fun get_prop :: "json \<Rightarrow> jsstring \<Rightarrow> json option" where
  "get_prop (JObj kvs) k = map_of kvs k"
| "get_prop _ k = None"

text \<open>
  \<^verbatim>\<open>Object.entries\<close>: the indexed code units of a string, the indexed elements of
  an array, the properties of an object, nothing for a number or a boolean, and a
  TypeError for \<^verbatim>\<open>null\<close>.
\<close>

fun Object_entries :: "json \<Rightarrow> exn + (jsstring \<times> json) list" where
  "Object_entries JNull = Inl TypeError"
| "Object_entries (JBool b) = Inr []"
| "Object_entries (JNum n) = Inr []"
| "Object_entries (JStr s) = Inr (zip (map Number_toString [0..<length s]) (map (\<lambda>c. JStr [c]) s))"
| "Object_entries (JArr vs) = Inr (zip (map Number_toString [0..<length vs]) vs)"
| "Object_entries (JObj kvs) = Inr kvs"

section \<open>The session state\<close>

text \<open>
  The answer map is a plain object with string values: the list of its own properties,
  every key once. The order of the properties is never observed; two answer maps are
  the same when \<open>map_of\<close> agrees on them.
\<close>

type_synonym AnswerMap = "(jsstring \<times> jsstring) list"

datatype status_type = success | error

record StatusMessage =
  msg_type :: status_type
  msg_text :: jsstring

text \<open>
  The state of the component, and with it the files the browser was asked to download
  (name and content), which is the effect of an export.
\<close>

record state =
  currentStep :: jsnum
  answers :: AnswerMap
  statusMessage :: "StatusMessage option"
  dragActive :: bool
  downloads :: "(jsstring \<times> filetext) list"

definition initial_state :: state where
  "initial_state = \<lparr> currentStep = Fin 0, answers = [], statusMessage = None,
     dragActive = False, downloads = [] \<rparr>"

definition setSuccess :: "jsstring \<Rightarrow> state \<Rightarrow> state" where
  "setSuccess t s = s\<lparr> statusMessage := Some \<lparr> msg_type = success, msg_text = t \<rparr> \<rparr>"

definition setError :: "jsstring \<Rightarrow> state \<Rightarrow> state" where
  "setError t s = s\<lparr> statusMessage := Some \<lparr> msg_type = error, msg_text = t \<rparr> \<rparr>"

subsection \<open>AnswerStore\<close>

text \<open>
  Defining an own property (a property of an object literal, computed key included):
  the value of an existing key is replaced, a new key is added.
\<close>

fun define_prop :: "AnswerMap \<Rightarrow> jsstring \<Rightarrow> jsstring \<Rightarrow> AnswerMap" where
  "define_prop [] k v = [(k, v)]"
| "define_prop ((k', v') # kvs) k v =
     (if k' = k then (k, v) # kvs else (k', v') # define_prop kvs k v)"

text \<open>\<^verbatim>\<open>setAnswers((prev) => ({ ...prev, [fieldId]: value }))\<close>\<close>

definition handleInputChange :: "jsstring \<Rightarrow> jsstring \<Rightarrow> state \<Rightarrow> state" where
  "handleInputChange fieldId v s = s\<lparr> answers := define_prop (answers s) fieldId v \<rparr>"

text \<open>
  \<^verbatim>\<open>answers[fieldId] ?? ''\<close>, for a field identifier: it starts with \<^verbatim>\<open>step-\<close>,
  so it names no property that the object inherits.
\<close>

definition get_answer :: "AnswerMap \<Rightarrow> jsstring \<Rightarrow> jsstring" where
  "get_answer a fieldId = (case map_of a fieldId of None \<Rightarrow> [] | Some v \<Rightarrow> v)"

subsection \<open>StepController\<close>

text \<open>
  \<open>pageCount\<close> is \<^verbatim>\<open>summaryStepIndex = formPages.length\<close>; the pages come from
  \<^verbatim>\<open>form-pages.json\<close>, which is a parameter here.
\<close>

definition clamp_step :: "nat \<Rightarrow> jsnum \<Rightarrow> jsnum" where
  \<comment> \<open>\<^verbatim>\<open>Math.max(0, Math.min(x, summaryStepIndex))\<close>\<close>
  "clamp_step pageCount x = Math_max (Fin 0) (Math_min x (Fin (of_nat pageCount)))"

definition goToStep :: "nat \<Rightarrow> jsnum \<Rightarrow> state \<Rightarrow> state" where
  "goToStep pageCount stepIndex s = s\<lparr> currentStep := clamp_step pageCount stepIndex \<rparr>"

definition isSummaryStep :: "nat \<Rightarrow> state \<Rightarrow> bool" where
  "isSummaryStep pageCount s \<longleftrightarrow> js_strict_eq (currentStep s) (Fin (of_nat pageCount))"

subsection \<open>PayloadCodec\<close>

text \<open>
  \<open>now\<close> is \<^verbatim>\<open>new Date().toISOString()\<close>. Building the payload and serializing it
  cannot throw, and the calls into the document are taken to succeed, so the
  \<^verbatim>\<open>catch\<close> branch is never entered.
\<close>

definition export_payload :: "jsstring \<Rightarrow> jsnum \<Rightarrow> AnswerMap \<Rightarrow> json" where
  "export_payload now step a =
     JObj [(js ''version'', JNum (Fin 1)),
           (js ''exportedAt'', JStr now),
           (js ''currentStep'', JNum step),
           (js ''answers'', JObj (map (\<lambda>(k, v). (k, JStr v)) a))]"

definition export_success_text :: jsstring where
  "export_success_text = js ''Descargaste un archivo con toda la informaci'' @ [0xF3] @ js ''n.''"

definition handleExport :: "jsstring \<Rightarrow> state \<Rightarrow> state" where
  "handleExport now s =
     setSuccess export_success_text
       (s\<lparr> downloads := downloads s @
             [(js ''busup-canvas.json'',
               JSON_stringify (export_payload now (currentStep s) (answers s)))] \<rparr>)"

definition handleNext :: "nat \<Rightarrow> jsstring \<Rightarrow> state \<Rightarrow> state" where
  "handleNext pageCount now s =
     (if isSummaryStep pageCount s then handleExport now s
      else goToStep pageCount (js_add (currentStep s) (Fin 1)) s)"

definition handleBack :: "nat \<Rightarrow> state \<Rightarrow> state" where
  "handleBack pageCount s = goToStep pageCount (js_sub (currentStep s) (Fin 1)) s"

text \<open>
  \<^verbatim>\<open>acc[key] = value\<close> on an object made by \<^verbatim>\<open>{}\<close>: an assignment, which looks the
  key up along the prototype chain. \<^verbatim>\<open>Object.prototype\<close> has one accessor property,
  \<^verbatim>\<open>__proto__\<close>, and its setter does nothing when the value is a string; under every
  other key the assignment defines an own property.
\<close>

definition assign_prop :: "AnswerMap \<Rightarrow> jsstring \<Rightarrow> jsstring \<Rightarrow> AnswerMap" where
  "assign_prop acc k v = (if k = js ''__proto__'' then acc else define_prop acc k v)"

definition keep_string :: "AnswerMap \<Rightarrow> jsstring \<times> json \<Rightarrow> AnswerMap" where
  \<comment> \<open>the callback of \<^verbatim>\<open>reduce\<close>\<close>
  "keep_string acc e =
     (case snd e of JStr v \<Rightarrow> assign_prop acc (fst e) v | _ \<Rightarrow> acc)"

definition sanitizedAnswers :: "(jsstring \<times> json) list \<Rightarrow> AnswerMap" where
  "sanitizedAnswers entries = foldl keep_string [] entries"

definition importedStep :: "nat \<Rightarrow> json option \<Rightarrow> jsnum" where
  "importedStep pageCount v =
     (case v of
        Some (JNum n) \<Rightarrow> (if n \<noteq> NaN then clamp_step pageCount n else Fin 0)
      | _ \<Rightarrow> Fin 0)"

definition no_answers_text :: jsstring where
  "no_answers_text = js ''El archivo no contiene respuestas.''"

definition parseImport :: "nat \<Rightarrow> filetext \<Rightarrow> state \<Rightarrow> exn + state" where
  "parseImport pageCount t s =
     (case JSON_parse t of
        Inl e \<Rightarrow> Inl e
      | Inr parsed \<Rightarrow>
          if \<not> truthy parsed \<or> \<not> typeof_object parsed then Inl (Error no_answers_text)
          else (case get_prop parsed (js ''answers'') of
            None \<Rightarrow> Inl (Error no_answers_text)
          | Some a \<Rightarrow>
              if \<not> truthy a then Inl (Error no_answers_text)
              else (case Object_entries a of
                Inl e \<Rightarrow> Inl e
              | Inr entries \<Rightarrow>
                  Inr (setSuccess (js ''Archivo importado correctamente.'')
                        (goToStep pageCount
                          (importedStep pageCount (get_prop parsed (js ''currentStep'')))
                          (s\<lparr> answers := sanitizedAnswers entries \<rparr>))))))"

text \<open>
  A selected or dropped file: reading it fails, or gives its text. Whatever is thrown
  while reading or importing is caught and becomes the error message.
\<close>

datatype picked_file = Unreadable | Readable filetext

definition unrecognized_text :: jsstring where
  "unrecognized_text =
     js ''No reconocemos el archivo. Aseg'' @ [0xFA] @ js ''rate de exportarlo desde la app.''"

definition handleFiles :: "nat \<Rightarrow> picked_file list option \<Rightarrow> state \<Rightarrow> state" where
  "handleFiles pageCount files s =
     (case files of
        None \<Rightarrow> s
      | Some [] \<Rightarrow> s
      | Some (f # _) \<Rightarrow>
          (case f of
             Unreadable \<Rightarrow> setError unrecognized_text s
           | Readable t \<Rightarrow>
               (case parseImport pageCount t s of
                  Inl e \<Rightarrow> setError unrecognized_text s
                | Inr s' \<Rightarrow> s')))"

subsection \<open>DropZoneController\<close>

definition handleDragOver :: "bool \<Rightarrow> state \<Rightarrow> state" where
  "handleDragOver hasFiles s = (if \<not> hasFiles then s else s\<lparr> dragActive := True \<rparr>)"

definition handleDragLeave :: "bool \<Rightarrow> state \<Rightarrow> state" where
  "handleDragLeave relatedTargetIsNull s =
     (if relatedTargetIsNull then s\<lparr> dragActive := False \<rparr> else s)"

definition handleDrop :: "nat \<Rightarrow> picked_file list option \<Rightarrow> state \<Rightarrow> state" where
  "handleDrop pageCount files s =
     (case files of
        None \<Rightarrow> s\<lparr> dragActive := False \<rparr>
      | Some [] \<Rightarrow> s\<lparr> dragActive := False \<rparr>
      | Some fs \<Rightarrow> handleFiles pageCount (Some fs) (s\<lparr> dragActive := False \<rparr>))"

subsection \<open>Invariants of the state\<close>

definition in_range :: "nat \<Rightarrow> jsnum \<Rightarrow> bool" where
  \<comment> \<open>a step within \<open>[0, pageCount]\<close>\<close>
  "in_range pageCount x =
     (case x of Fin r \<Rightarrow> 0 \<le> r \<and> r \<le> of_nat pageCount | _ \<Rightarrow> False)"

definition wf_answers :: "AnswerMap \<Rightarrow> bool" where
  \<comment> \<open>what every answer map of the program is: each key once, none of them \<^verbatim>\<open>__proto__\<close>\<close>
  "wf_answers a \<longleftrightarrow> distinct (map fst a) \<and> js ''__proto__'' \<notin> set (map fst a)"

section \<open>Lemmas on the identifier\<close>

lemma is_combining_mark_block: "is_combining_mark c \<longleftrightarrow> diacritical_block c"
  by (simp add: is_combining_mark_def diacritical_block_def word_le_nat_alt)

lemma replace_marks_block: "replace_marks s = block_strip_marks s"
  by (induction s) (simp_all add: block_strip_marks_def is_combining_mark_block)

lemma hyphen_not_alnum: "\<not> is_alnum hyphen"
  by (simp add: is_alnum_def hyphen_def)

lemma spec_alnum_is_alnum: "spec_alnum = is_alnum"
  by (auto simp: fun_eq_iff is_alnum_def spec_alnum_def word_le_nat_alt)

lemma replace_runs_alnum_prefix:
  "replace_runs cs = takeWhile is_alnum cs @ replace_runs (dropWhile is_alnum cs)"
  by (induction cs) auto

lemma replace_runs_spec: "replace_runs s = spec_hyphenate_runs s"
proof (induction s rule: length_induct)
  case (1 s)
  show ?case
  proof (cases s)
    case Nil
    then show ?thesis by (simp add: spec_hyphenate_runs_def spec_alnum_is_alnum)
  next
    case (Cons c cs)
    show ?thesis
    proof (cases "is_alnum c")
      case True
      have eq: "(\<lambda>y. is_alnum y = is_alnum c) = is_alnum" using True by auto
      have len: "length (dropWhile is_alnum cs) < length s"
        using Cons by (simp add: length_dropWhile_le less_Suc_eq_le)
      have "replace_runs s = c # takeWhile is_alnum cs @ replace_runs (dropWhile is_alnum cs)"
        using Cons True replace_runs_alnum_prefix [of cs] by simp
      also have "\<dots> = c # takeWhile is_alnum cs @ spec_hyphenate_runs (dropWhile is_alnum cs)"
        using 1 len by simp
      also have "\<dots> = spec_hyphenate_runs s"
        using Cons True by (simp add: spec_hyphenate_runs_def spec_alnum_is_alnum eq)
      finally show ?thesis .
    next
      case False
      have eq: "(\<lambda>y. is_alnum y = is_alnum c) = (\<lambda>d. \<not> is_alnum d)" using False by auto
      have len: "length (dropWhile (\<lambda>d. \<not> is_alnum d) cs) < length s"
        using Cons by (simp add: length_dropWhile_le less_Suc_eq_le)
      have "replace_runs s = hyphen # replace_runs (dropWhile (\<lambda>d. \<not> is_alnum d) cs)"
        using Cons False by simp
      also have "\<dots> = hyphen # spec_hyphenate_runs (dropWhile (\<lambda>d. \<not> is_alnum d) cs)"
        using 1 len by simp
      also have "\<dots> = spec_hyphenate_runs s"
        using Cons False by (simp add: spec_hyphenate_runs_def spec_alnum_is_alnum eq)
      finally show ?thesis .
    qed
  qed
qed

lemma replace_runs_hd_aux:
  "xs = [] \<or> is_alnum (hd xs) \<Longrightarrow> replace_runs xs = [] \<or> hd (replace_runs xs) \<noteq> hyphen"
  using hyphen_not_alnum by (cases xs) auto

lemma replace_runs_hd:
  "replace_runs (dropWhile (\<lambda>d. \<not> is_alnum d) cs) = []
   \<or> hd (replace_runs (dropWhile (\<lambda>d. \<not> is_alnum d) cs)) \<noteq> hyphen"
proof (rule replace_runs_hd_aux)
  show "dropWhile (\<lambda>d. \<not> is_alnum d) cs = [] \<or> is_alnum (hd (dropWhile (\<lambda>d. \<not> is_alnum d) cs))"
    using hd_dropWhile [of "\<lambda>d. \<not> is_alnum d" cs] by blast
qed

lemma replace_runs_isolated: "successively (\<lambda>a b. \<not> (a = hyphen \<and> b = hyphen)) (replace_runs s)"
proof (induction s rule: replace_runs.induct)
  case 1 show ?case by simp
next
  case (2 c cs)
  show ?case
  proof (cases "is_alnum c")
    case True
    then have "c \<noteq> hyphen" using hyphen_not_alnum by auto
    then show ?thesis using 2 True by (simp add: successively_Cons)
  next
    case False
    then show ?thesis using 2 replace_runs_hd[of cs] by (auto simp add: successively_Cons)
  qed
qed

lemma dropWhile_one:
  assumes "successively (\<lambda>a b. \<not> (a = h \<and> b = h)) s"
  shows "dropWhile (\<lambda>c. c = h) s = (if s \<noteq> [] \<and> hd s = h then tl s else s)"
proof (cases s)
  case Nil then show ?thesis by simp
next
  case (Cons a as)
  then show ?thesis using assms by (cases as) auto
qed

lemma successively_tl: "successively P s \<Longrightarrow> successively P (tl s)"
  by (cases s) (auto simp: successively_Cons)

lemma tl_rev_butlast: "tl (rev xs) = rev (butlast xs)"
  by (cases xs rule: rev_cases) auto

lemma replace_edges_trim:
  assumes "successively (\<lambda>a b. \<not> (a = hyphen \<and> b = hyphen)) s"
  shows "replace_edges s = spec_trim_hyphens s"
proof -
  define s1 where "s1 = (if s \<noteq> [] \<and> hd s = hyphen then tl s else s)"
  have s1: "dropWhile (\<lambda>c. c = hyphen) s = s1"
    unfolding s1_def using assms by (rule dropWhile_one)
  have iso1: "successively (\<lambda>a b. \<not> (a = hyphen \<and> b = hyphen)) s1"
    unfolding s1_def using assms by (simp add: successively_tl)
  moreover have "(\<lambda>x y. \<not> (y = hyphen \<and> x = hyphen)) = (\<lambda>a b. \<not> (a = hyphen \<and> b = hyphen))"
    by (auto simp: fun_eq_iff)
  ultimately have "successively (\<lambda>a b. \<not> (a = hyphen \<and> b = hyphen)) (rev s1)"
    by (simp only: successively_rev)
  then have "dropWhile (\<lambda>c. c = hyphen) (rev s1) = (if rev s1 \<noteq> [] \<and> hd (rev s1) = hyphen then tl (rev s1) else rev s1)"
    by (rule dropWhile_one)
  then have "rev (dropWhile (\<lambda>c. c = hyphen) (rev s1)) = (if s1 \<noteq> [] \<and> last s1 = hyphen then butlast s1 else s1)"
    by (auto simp: hd_rev tl_rev_butlast rev_swap)
  then show ?thesis
    by (simp add: replace_edges_def spec_trim_hyphens_def s1 s1_def [symmetric] Let_def)
qed

lemma slugify_block_slug: "slugify U q = block_slug U q"
  by (simp add: slugify_def block_slug_def replace_marks_block [symmetric]
      replace_runs_spec [symmetric] replace_edges_trim [OF replace_runs_isolated])

lemma js_Nil: "js [] = []" by (simp add: js_def)
lemma js_Cons: "js (c # cs) = of_nat (of_char c) # js cs" by (simp add: js_def)

subsection \<open>Decimal numerals\<close>

lemma unat_digit_unit: "d < 10 \<Longrightarrow> unat (digit_unit d) = 48 + d"
  by (simp add: digit_unit_def unat_word_ariths unat_of_nat)

lemma digit_unit_not_hyphen: "d < 10 \<Longrightarrow> digit_unit d \<noteq> hyphen"
proof
  assume "d < 10" and "digit_unit d = hyphen"
  then have "48 + d = unat hyphen" using unat_digit_unit [of d] by simp
  then show False by (simp add: hyphen_def)
qed

lemma digit_unit_inj: "d < 10 \<Longrightarrow> e < 10 \<Longrightarrow> digit_unit d = digit_unit e \<Longrightarrow> d = e"
proof -
  assume d: "d < 10" and e: "e < 10" and eq: "digit_unit d = digit_unit e"
  have "48 + d = unat (digit_unit d)" using unat_digit_unit [OF d] by (rule sym)
  also have "\<dots> = unat (digit_unit e)" by (simp only: eq)
  also have "\<dots> = 48 + e" by (rule unat_digit_unit [OF e])
  finally show "d = e" by simp
qed

lemma Number_toString_no_hyphen: "hyphen \<notin> set (Number_toString n)"
proof (induction n rule: Number_toString.induct)
  case (1 n)
  show ?case
  proof (cases "n < 10")
    case True
    then show ?thesis using digit_unit_not_hyphen [of n] by (simp add: Number_toString.simps [of n])
  next
    case False
    have "n mod 10 < 10" by simp
    then have "digit_unit (n mod 10) \<noteq> hyphen" by (rule digit_unit_not_hyphen)
    then show ?thesis using False "1.IH" by (auto simp add: Number_toString.simps [of n])
  qed
qed

lemma Number_toString_not_Nil: "Number_toString n \<noteq> []"
  by (simp add: Number_toString.simps [of n])

lemma Number_toString_inj: "Number_toString m = Number_toString n \<Longrightarrow> m = n"
proof (induction m arbitrary: n rule: Number_toString.induct)
  case (1 m)
  show ?case
  proof (cases "m < 10")
    case m: True
    show ?thesis
    proof (cases "n < 10")
      case True
      then show ?thesis using m "1.prems" digit_unit_inj [of m n]
        by (simp add: Number_toString.simps [of m] Number_toString.simps [of n])
    next
      case False
      then show ?thesis using m "1.prems" Number_toString_not_Nil [of "n div 10"]
        by (simp add: Number_toString.simps [of m] Number_toString.simps [of n])
    qed
  next
    case m: False
    show ?thesis
    proof (cases "n < 10")
      case True
      then show ?thesis using m "1.prems" Number_toString_not_Nil [of "m div 10"]
        by (simp add: Number_toString.simps [of m] Number_toString.simps [of n])
    next
      case False
      have eq: "Number_toString (m div 10) = Number_toString (n div 10)"
        and dg: "digit_unit (m mod 10) = digit_unit (n mod 10)"
        using m False "1.prems"
        by (simp_all add: Number_toString.simps [of m] Number_toString.simps [of n])
      have "m div 10 = n div 10" using "1.IH" [OF m eq] .
      moreover have "m mod 10 = n mod 10" using dg by (intro digit_unit_inj) simp_all
      ultimately show ?thesis by (metis div_mult_mod_eq)
    qed
  qed
qed

lemma split_at_first:
  "h \<notin> set a \<Longrightarrow> h \<notin> set a' \<Longrightarrow> a @ h # s = a' @ h # s' \<Longrightarrow> a = a' \<and> s = s'"
proof (induction a arbitrary: a')
  case Nil
  then show ?case by (cases a') auto
next
  case (Cons x a)
  then show ?case by (cases a') auto
qed

lemma js_hyphen: "js ''-'' = [hyphen]"
  by (simp add: js_Nil js_Cons hyphen_def)


section \<open>Lemmas on the answer map and the step\<close>

lemma map_of_define_prop: "map_of (define_prop a k v) = (map_of a)(k \<mapsto> v)"
  by (induction a) (auto simp: fun_eq_iff)

lemma map_fst_define_prop:
  "map fst (define_prop a k v) = (if k \<in> set (map fst a) then map fst a else map fst a @ [k])"
  by (induction a) (force+)

lemma keys_define_prop: "set (map fst (define_prop a k v)) = insert k (set (map fst a))"
  by (auto simp: map_fst_define_prop)

lemma distinct_define_prop:
  "distinct (map fst a) \<Longrightarrow> distinct (map fst (define_prop a k v))"
  by (simp add: map_fst_define_prop)

lemma wf_define_prop:
  "wf_answers a \<Longrightarrow> k \<noteq> js ''__proto__'' \<Longrightarrow> wf_answers (define_prop a k v)"
  using keys_define_prop [of a k v] by (simp add: wf_answers_def distinct_define_prop)

lemma wf_keep_string: "wf_answers acc \<Longrightarrow> wf_answers (keep_string acc e)"
  by (simp add: keep_string_def assign_prop_def wf_define_prop split: json.splits)

lemma wf_foldl_keep_string: "wf_answers acc \<Longrightarrow> wf_answers (foldl keep_string acc es)"
  by (induction es arbitrary: acc) (simp_all add: wf_keep_string)

lemma wf_sanitizedAnswers: "wf_answers (sanitizedAnswers es)"
  unfolding sanitizedAnswers_def by (rule wf_foldl_keep_string) (simp add: wf_answers_def)

lemma map_of_keep_string:
  "map_of (keep_string acc (k0, v0)) k =
     (if k = k0 \<and> k0 \<noteq> js ''__proto__'' then (case v0 of JStr v \<Rightarrow> Some v | _ \<Rightarrow> map_of acc k)
      else map_of acc k)"
  by (simp add: keep_string_def assign_prop_def map_of_define_prop split: json.splits)

lemma map_of_foldl_keep_string:
  "distinct (map fst es) \<Longrightarrow>
   map_of (foldl keep_string acc es) k =
     (case map_of es k of
        Some (JStr v) \<Rightarrow> if k = js ''__proto__'' then map_of acc k else Some v
      | _ \<Rightarrow> map_of acc k)"
proof (induction es arbitrary: acc)
  case Nil
  then show ?case by simp
next
  case (Cons e es)
  obtain k0 v0 where e: "e = (k0, v0)" by (cases e)
  have d: "distinct (map fst es)" and nin: "k0 \<notin> fst ` set es"
    using Cons.prems e by simp_all
  have none: "map_of es k0 = None"
    using nin by (simp add: map_of_eq_None_iff)
  show ?case
  proof (cases "k = k0")
    case True
    then show ?thesis
      using Cons.IH [OF d, of "keep_string acc (k0, v0)"] e none
      by (simp add: map_of_keep_string split: option.splits json.splits)
  next
    case False
    then show ?thesis
      using Cons.IH [OF d, of "keep_string acc (k0, v0)"] e
      by (simp add: map_of_keep_string split: option.splits json.splits)
  qed
qed

lemma sanitizedAnswers_lookup:
  "distinct (map fst es) \<Longrightarrow>
   map_of (sanitizedAnswers es) k =
     (case map_of es k of
        Some (JStr v) \<Rightarrow> if k = js ''__proto__'' then None else Some v
      | _ \<Rightarrow> None)"
  by (simp add: sanitizedAnswers_def map_of_foldl_keep_string split: option.splits json.splits)

lemma clamp_step_Fin: "clamp_step pc (Fin r) = Fin (max 0 (min r (of_nat pc)))"
  by (simp add: clamp_step_def Math_max_def Math_min_def max_def min_def)

lemma clamp_step_PosInf: "clamp_step pc PosInf = Fin (of_nat pc)"
  by (simp add: clamp_step_def Math_max_def Math_min_def)

lemma clamp_step_NegInf: "clamp_step pc NegInf = Fin 0"
  by (simp add: clamp_step_def Math_max_def Math_min_def)

lemma clamp_step_NaN: "clamp_step pc NaN = NaN"
  by (simp add: clamp_step_def Math_max_def Math_min_def)

lemma in_range_clamp_step: "x \<noteq> NaN \<Longrightarrow> in_range pc (clamp_step pc x)"
  by (cases x) (simp_all add: clamp_step_Fin clamp_step_PosInf clamp_step_NegInf in_range_def)

lemma clamp_step_in_range: "in_range pc x \<Longrightarrow> clamp_step pc x = x"
  by (cases x) (simp_all add: clamp_step_Fin in_range_def)

lemma in_range_not_NaN: "in_range pc x \<Longrightarrow> x \<noteq> NaN"
  by (auto simp: in_range_def)

lemma in_range_zero: "in_range pc (Fin 0)"
  by (simp add: in_range_def)

lemma in_range_importedStep: "in_range pc (importedStep pc v)"
proof (cases "\<exists>n. v = Some (JNum n) \<and> n \<noteq> NaN")
  case True
  then obtain n where "v = Some (JNum n)" "n \<noteq> NaN" by blast
  then show ?thesis by (simp add: importedStep_def in_range_clamp_step)
next
  case False
  then have "importedStep pc v = Fin 0"
    by (auto simp: importedStep_def split: option.splits json.splits)
  then show ?thesis by (simp add: in_range_zero)
qed

section \<open>The claims on the identifier\<close>

lemmas slug_eval = makeFieldId_def slugify_def basic_latin_def lower_unit_def is_alnum_def
  is_combining_mark_def hyphen_def replace_edges_def js_Nil js_Cons digit_unit_def
  Number_toString.simps

lemma makeFieldId_not_proto: "makeFieldId U p q \<noteq> js ''__proto__''"
  by (simp add: makeFieldId_def js_Nil js_Cons)

lemmas spec_eval = spec_slug_def spec_strip_marks_def spec_combining_mark_def
  spec_hyphenate_runs_def spec_trim_hyphens_def basic_latin_def lower_unit_def spec_alnum_def
  hyphen_def js_Nil js_Cons

text \<open>
  Claim C5, as stated: the slug is the question in lower case, canonically decomposed,
  without its combining marks, every run outside [a-z0-9] replaced by one hyphen, and
  trimmed. U+20D7, the combining right arrow above, is a combining mark. Of the
  question \<^verbatim>\<open>x\<close>, U+20D7, \<^verbatim>\<open>y\<close> those words make the slug \<^verbatim>\<open>xy\<close>; the identifier
  on page 0 is \<^verbatim>\<open>step-0-x-y\<close>.
\<close>

theorem makeFieldId_symbol_mark:
  "spec_combining_mark 0x20D7
   \<and> spec_slug basic_latin [0x78, 0x20D7, 0x79] = js ''xy''
   \<and> makeFieldId basic_latin 0 [0x78, 0x20D7, 0x79] = js ''step-0-x-y''
   \<and> makeFieldId basic_latin 0 [0x78, 0x20D7, 0x79]
       \<noteq> js ''step-'' @ Number_toString 0 @ js ''-'' @ spec_slug basic_latin [0x78, 0x20D7, 0x79]"
proof -
  have 1: "spec_combining_mark 0x20D7" by (simp add: spec_combining_mark_def)
  have 2: "spec_slug basic_latin [0x78, 0x20D7, 0x79] = js ''xy''" by (simp add: spec_eval)
  have 3: "makeFieldId basic_latin 0 [0x78, 0x20D7, 0x79] = js ''step-0-x-y''"
    by (simp add: slug_eval)
  have 4: "js ''step-0-x-y'' \<noteq> js ''step-'' @ Number_toString 0 @ js ''-'' @ js ''xy''"
    by (simp add: js_Nil js_Cons)
  from 1 2 3 4 show ?thesis by simp
qed

text \<open>
  Claim C5, amended. For every page index and every question, \<open>makeFieldId\<close> is
  \<^verbatim>\<open>step-\<close>, the page index and a hyphen, followed by the slug: the question in lower
  case, canonically decomposed, without the marks of the block U+0300 to U+036F, every
  run of code units outside [a-z0-9], other combining marks among them, replaced by one
  hyphen, and the hyphens at both ends trimmed. The function is total and has no state;
  when the slug is empty the identifier is \<^verbatim>\<open>step-\<close>, the page index and a hyphen.
\<close>

theorem makeFieldId_slug:
  "makeFieldId U pageIndex question =
     js ''step-'' @ Number_toString pageIndex @ js ''-'' @ block_slug U question
   \<and> (slugify U question = [] \<longrightarrow>
        makeFieldId U pageIndex question = js ''step-'' @ Number_toString pageIndex @ js ''-'')"
  by (simp add: makeFieldId_def slugify_block_slug)

theorem makeFieldId_slug_witness:
  "slugify basic_latin (js ''?!'') = []
   \<and> makeFieldId basic_latin 0 (js ''?!'') = js ''step-0-''
   \<and> block_slug basic_latin (js ''Nin'' @ [0x0303] @ js ''o'') = js ''nino''
   \<and> makeFieldId basic_latin 3 (js ''Nin'' @ [0x0303] @ js ''o'') = js ''step-3-nino''
   \<and> makeFieldId basic_latin 12
        (js ''Caf'' @ [0x65, 0x0301] @ js '' -- Men'' @ [0x75, 0x0301] @ js ''!'')
      = js ''step-12-cafe-menu''"
proof -
  have h: "slugify basic_latin (js ''?!'') = []" by (simp add: slug_eval)
  have n: "Number_toString 0 = js ''0''" "Number_toString 3 = js ''3''"
    by (simp_all add: slug_eval)
  have b: "block_slug basic_latin (js ''Nin'' @ [0x0303] @ js ''o'') = js ''nino''"
    by (simp add: block_slug_def block_strip_marks_def diacritical_block_def
        spec_hyphenate_runs_def spec_trim_hyphens_def basic_latin_def lower_unit_def
        spec_alnum_def hyphen_def js_Nil js_Cons)
  have e: "makeFieldId basic_latin 12
        (js ''Caf'' @ [0x65, 0x0301] @ js '' -- Men'' @ [0x75, 0x0301] @ js ''!'')
      = js ''step-12-cafe-menu''"
    by (simp add: slug_eval)
  have z: "makeFieldId basic_latin 0 (js ''?!'') = js ''step-'' @ Number_toString 0 @ js ''-''"
    using makeFieldId_slug [of basic_latin 0 "js ''?!''"] h by blast
  have t: "makeFieldId basic_latin 3 (js ''Nin'' @ [0x0303] @ js ''o'')
      = js ''step-'' @ Number_toString 3 @ js ''-'' @ block_slug basic_latin (js ''Nin'' @ [0x0303] @ js ''o'')"
    using makeFieldId_slug [of basic_latin 3 "js ''Nin'' @ [0x0303] @ js ''o''"] by blast
  have t': "makeFieldId basic_latin 3 (js ''Nin'' @ [0x0303] @ js ''o'') = js ''step-3-nino''"
    unfolding t b n by (simp add: js_def)
  have z': "makeFieldId basic_latin 0 (js ''?!'') = js ''step-0-''"
    unfolding z n by (simp add: js_def)
  from h z' b t' e show ?thesis by blast
qed

text \<open>
  Claim C6, as stated: two distinct pairs of page index and question have distinct
  identifiers. It fails: on page 0 the questions \<^verbatim>\<open>A\<close> and \<^verbatim>\<open>a\<close> both get
  \<^verbatim>\<open>step-0-a\<close>.
\<close>

theorem makeFieldId_collision:
  "(0::nat, js ''A'') \<noteq> (0, js ''a'')
   \<and> makeFieldId basic_latin 0 (js ''A'') = makeFieldId basic_latin 0 (js ''a'')"
  by (simp add: slug_eval)

text \<open>
  Claim C6, amended: two pairs have the same identifier exactly when their page indices
  are equal and their questions have the same slug. Identifiers of different pages, and
  of questions with different slugs, are distinct.
\<close>

theorem makeFieldId_eq_iff:
  "makeFieldId U p q = makeFieldId U p' q' \<longleftrightarrow> p = p' \<and> slugify U q = slugify U q'"
proof
  assume "makeFieldId U p q = makeFieldId U p' q'"
  then have "Number_toString p @ hyphen # slugify U q = Number_toString p' @ hyphen # slugify U q'"
    by (simp add: makeFieldId_def js_hyphen)
  then have "Number_toString p = Number_toString p' \<and> slugify U q = slugify U q'"
    by (rule split_at_first [OF Number_toString_no_hyphen Number_toString_no_hyphen])
  then show "p = p' \<and> slugify U q = slugify U q'"
    by (auto dest: Number_toString_inj)
next
  assume "p = p' \<and> slugify U q = slugify U q'"
  then show "makeFieldId U p q = makeFieldId U p' q'" by (simp add: makeFieldId_def)
qed

section \<open>Lemmas on rounding\<close>

lemma bitlen_powi:
  assumes "0 < p"
  shows "(2::rat) powi (bitlen p - 1) \<le> of_int p" and "of_int p < (2::rat) powi (bitlen p)"
proof -
  have b: "2 ^ nat (bitlen p - 1) \<le> p" "p < 2 ^ nat (bitlen p)"
    using bitlen_bounds [OF assms] by simp_all
  have ge1: "1 \<le> bitlen p"
    using assms bitlen_eq_zero_iff [of p] bitlen_nonneg [of p] by linarith
  have "(2::rat) powi (bitlen p - 1) = 2 ^ nat (bitlen p - 1)"
    using ge1 by (simp add: power_int_def)
  also have "\<dots> = of_int (2 ^ nat (bitlen p - 1))" by simp
  also have "\<dots> \<le> of_int p" using b(1) by (simp only: of_int_le_iff)
  finally show "(2::rat) powi (bitlen p - 1) \<le> of_int p" .
  have "(of_int p :: rat) < of_int (2 ^ nat (bitlen p))" using b(2) by (simp only: of_int_less_iff)
  also have "\<dots> = 2 ^ nat (bitlen p)" by simp
  also have "\<dots> = (2::rat) powi (bitlen p)"
    using ge1 by (simp add: power_int_def)
  finally show "of_int p < (2::rat) powi (bitlen p)" .
qed

lemma floor_log2_bounds:
  assumes "0 < a"
  shows "2 powi (floor_log2 a) \<le> a" and "a < 2 powi (floor_log2 a + 1)"
proof -
  obtain p q where pq: "quotient_of a = (p, q)" by (cases "quotient_of a")
  have q: "0 < q" using pq quotient_of_denom_pos by blast
  have a: "a = of_int p / of_int q" using pq by (rule quotient_of_div)
  have p: "0 < p" using assms q a by (simp add: zero_less_divide_iff)
  define d where "d = bitlen p - bitlen q"
  have qr: "(0::rat) < of_int q" using q by simp
  have lo: "(2::rat) powi (d - 1) \<le> a"
  proof -
    have "(2::rat) powi (d - 1) = 2 powi (bitlen p - 1) / 2 powi (bitlen q)"
      by (simp add: d_def power_int_diff)
    also have "\<dots> \<le> of_int p / 2 powi (bitlen q)"
      using bitlen_powi(1) [OF p] by (simp add: divide_right_mono)
    also have "\<dots> \<le> of_int p / of_int q"
      using bitlen_powi(2) [OF q] p qr by (intro divide_left_mono) (simp_all add: less_imp_le)
    finally show ?thesis by (simp add: a)
  qed
  have hi: "a < (2::rat) powi (d + 1)"
  proof -
    have pq1: "(0::rat) < 2 powi (bitlen q - 1)" by simp
    have "a = of_int p / of_int q" by (rule a)
    also have "\<dots> \<le> of_int p / 2 powi (bitlen q - 1)"
      using bitlen_powi(1) [OF q] p pq1 qr by (intro divide_left_mono) (simp_all add: less_imp_le)
    also have "\<dots> < 2 powi (bitlen p) / 2 powi (bitlen q - 1)"
      using bitlen_powi(2) [OF p] pq1 by (simp add: divide_strict_right_mono)
    also have "\<dots> = (2::rat) powi (d + 1)"
      by (simp add: d_def power_int_diff [symmetric] algebra_simps)
    finally show ?thesis .
  qed
  have fl: "floor_log2 a = (if 2 powi d \<le> a then d else d - 1)"
    by (simp add: floor_log2_def pq d_def Let_def)
  show "2 powi (floor_log2 a) \<le> a" using lo by (simp add: fl)
  show "a < 2 powi (floor_log2 a + 1)" using hi by (auto simp: fl not_le)
qed

lemma round_half_even_of_int: "round_half_even (of_int k) = k"
  by (simp add: round_half_even_def)

lemma round_half_even_near: "\<bar>of_int (round_half_even x) - x\<bar> \<le> 1 / 2"
proof -
  have "of_int \<lfloor>x\<rfloor> \<le> x" "x < of_int \<lfloor>x\<rfloor> + 1" by linarith+
  then show ?thesis by (auto simp: round_half_even_def Let_def abs_if) linarith+
qed

lemma two_powi_less_cancel: "(2::rat) powi m < 2 powi n \<Longrightarrow> m < n"
  using power_int_increasing [of n m "2::rat"] by (cases "m < n") simp_all

lemma two_powi_le_cancel: "(2::rat) powi m \<le> 2 powi n \<Longrightarrow> m \<le> n"
  using power_int_strict_increasing [of n m "2::rat"] by (cases "m \<le> n") simp_all

lemma floor_log2_unique:
  assumes "2 powi e \<le> a" and "a < 2 powi (e + 1)"
  shows "floor_log2 a = e"
proof -
  have pos: "0 < a" using assms(1) zero_less_power_int [of "2::rat" e] by linarith
  have l: "2 powi (floor_log2 a) \<le> a" and u: "a < 2 powi (floor_log2 a + 1)"
    using floor_log2_bounds [OF pos] by simp_all
  have "(2::rat) powi e < 2 powi (floor_log2 a + 1)" using assms(1) u by linarith
  then have 1: "e < floor_log2 a + 1" by (rule two_powi_less_cancel)
  have "(2::rat) powi (floor_log2 a) < 2 powi (e + 1)" using l assms(2) by linarith
  then have 2: "floor_log2 a < e + 1" by (rule two_powi_less_cancel)
  from 1 2 show ?thesis by linarith
qed

lemma round_double_of_int:
  assumes "\<bar>n\<bar> \<le> 2 ^ 53"
  shows "round_double (of_int n) = Fin (of_int n)"
proof (cases "n = 0")
  case True
  then show ?thesis by (simp add: round_double_def)
next
  case False
  define a :: rat where "a = \<bar>of_int n\<bar>"
  define e where "e = floor_log2 a"
  have a1: "1 \<le> a" using False by (simp add: a_def flip: of_int_abs)
  have apos: "0 < a" using a1 by linarith
  have a53: "a \<le> 2 ^ 53"
  proof -
    have "a = of_int \<bar>n\<bar>" by (simp add: a_def)
    also have "\<dots> \<le> of_int (2 ^ 53)" using assms by (simp only: of_int_le_iff)
    finally show ?thesis by simp
  qed
  have l: "2 powi e \<le> a" and u: "a < 2 powi (e + 1)"
    using floor_log2_bounds [OF apos] by (simp_all add: e_def)
  have e0: "0 \<le> e"
  proof -
    have "(2::rat) powi 0 < 2 powi (e + 1)" using a1 u by simp
    then have "0 < e + 1" by (rule two_powi_less_cancel)
    then show ?thesis by linarith
  qed
  have e53: "e \<le> 53"
  proof -
    have "(2::rat) powi e \<le> 2 powi 53" using l a53 by simp
    then show ?thesis by (rule two_powi_le_cancel)
  qed
  have emax: "max e (- 1022) = e" using e0 by simp
  have int_quot: "\<exists>k. a / 2 powi (e - 52) = of_int k"
  proof (cases "e \<le> 52")
    case True
    have "a / 2 powi (e - 52) = a * 2 powi (52 - e)"
      by (simp add: power_int_diff field_simps)
    also have "\<dots> = of_int (\<bar>n\<bar> * 2 ^ nat (52 - e))"
      using True by (simp add: a_def power_int_def)
    finally show ?thesis by blast
  next
    case False
    then have e: "e = 53" using e53 by linarith
    have "a = 2 ^ 53" using l a53 by (simp add: e)
    then have "a / 2 powi (e - 52) = of_int (2 ^ 52)" by (simp add: e)
    then show ?thesis by blast
  qed
  then obtain k where k: "a / 2 powi (e - 52) = of_int k" by blast
  have v: "of_int (round_half_even (a / 2 powi (e - 52))) * 2 powi (e - 52) = a"
  proof -
    have "of_int (round_half_even (a / 2 powi (e - 52))) * (2::rat) powi (e - 52)
        = a / 2 powi (e - 52) * 2 powi (e - 52)"
      by (simp only: k round_half_even_of_int)
    also have "\<dots> = a" by simp
    finally show ?thesis .
  qed
  have no: "\<not> 1024 \<le> floor_log2 a" using e53 by (simp add: e_def)
  have "round_double (of_int n) = Fin (if 0 < (of_int n :: rat) then a else - a)"
    using False no by (simp add: round_double_def Let_def a_def [symmetric] e_def [symmetric] emax v)
  also have "\<dots> = Fin (of_int n)" by (simp add: a_def)
  finally show ?thesis .
qed

text \<open>Up to \<open>2 ^ 53\<close> every sum is the rounded exact sum.\<close>

lemma js_add_rounds:
  assumes "\<bar>a + b\<bar> \<le> 2 ^ 53"
  shows "js_add (Fin a) (Fin b) = round_double (a + b)"
proof (cases "of_int \<lfloor>a + b\<rfloor> = a + b")
  case True
  have "\<bar>of_int \<lfloor>a + b\<rfloor> :: rat\<bar> = \<bar>a + b\<bar>" by (simp only: True)
  then have "\<bar>of_int \<lfloor>a + b\<rfloor> :: rat\<bar> \<le> of_int (2 ^ 53)" using assms by simp
  then have "\<bar>\<lfloor>a + b\<rfloor>\<bar> \<le> 2 ^ 53" by (simp only: of_int_abs [symmetric] of_int_le_iff)
  then have "round_double (of_int \<lfloor>a + b\<rfloor>) = Fin (of_int \<lfloor>a + b\<rfloor>)"
    by (rule round_double_of_int)
  then show ?thesis using True by simp
next
  case False
  then show ?thesis by simp
qed

text \<open>
  One plus \<open>2 ^ - 60\<close> is one; a sum that is a double stays; a tie goes to the even
  neighbour; one tenth is the double next to it.
\<close>

lemma round_double_examples:
  "js_add (Fin (1 / 2 ^ 60)) (Fin 1) = Fin 1"
  "js_add (Fin (3 / 2)) (Fin 1) = Fin (5 / 2)"
  "round_double (2 ^ 53 + 1) = Fin (2 ^ 53)"
  "round_double (1 / 10) = Fin (3602879701896397 / 2 ^ 55)"
  by code_simp+

section \<open>Lemmas on import and export\<close>

lemma currentStep_setSuccess: "currentStep (setSuccess t s) = currentStep s"
  by (simp add: setSuccess_def)
lemma answers_setSuccess: "answers (setSuccess t s) = answers s"
  by (simp add: setSuccess_def)
lemma currentStep_setError: "currentStep (setError t s) = currentStep s"
  by (simp add: setError_def)
lemma answers_setError: "answers (setError t s) = answers s"
  by (simp add: setError_def)
lemma currentStep_goToStep: "currentStep (goToStep pc x s) = clamp_step pc x"
  by (simp add: goToStep_def)
lemma answers_goToStep: "answers (goToStep pc x s) = answers s"
  by (simp add: goToStep_def)
lemma currentStep_handleExport: "currentStep (handleExport now s) = currentStep s"
  by (simp add: handleExport_def setSuccess_def)
lemma answers_handleExport: "answers (handleExport now s) = answers s"
  by (simp add: handleExport_def setSuccess_def)

lemma round_double_not_NaN: "round_double r \<noteq> NaN"
  by (simp add: round_double_def Let_def)
lemma js_add_one: "x \<noteq> NaN \<Longrightarrow> js_add x (Fin 1) \<noteq> NaN"
  by (cases x) (simp_all add: round_double_not_NaN)
lemma js_sub_one: "x \<noteq> NaN \<Longrightarrow> js_sub x (Fin 1) \<noteq> NaN"
  by (cases x) (simp_all add: js_sub_def round_double_not_NaN)
lemma js_add_nat_one: "js_add (Fin (of_nat k)) (Fin 1) = Fin (of_nat k + 1)"
proof -
  have "(of_nat k :: rat) + 1 = of_int (int k + 1)" by simp
  then have "of_int \<lfloor>(of_nat k :: rat) + 1\<rfloor> = (of_nat k :: rat) + 1"
    by (simp only: floor_of_int)
  then show ?thesis by simp
qed

text \<open>What a successful import is.\<close>

lemma parseImport_Inr:
  "parseImport pc t s = Inr s' \<Longrightarrow>
   \<exists>kvs a entries. t = Denotes (JObj kvs) \<and> map_of kvs (js ''answers'') = Some a \<and> truthy a
     \<and> Object_entries a = Inr entries
     \<and> s' = setSuccess (js ''Archivo importado correctamente.'')
            (goToStep pc (importedStep pc (map_of kvs (js ''currentStep'')))
              (s\<lparr> answers := sanitizedAnswers entries \<rparr>))"
  by (cases t; cases "JSON_parse t")
     (auto simp: parseImport_def JSON_parse_def
        split: if_splits option.splits sum.splits json.splits elim!: typeof_object.elims)

lemma Object_entries_truthy: "truthy a \<Longrightarrow> \<exists>entries. Object_entries a = Inr entries"
  by (cases a) simp_all

lemma parseImport_JObj:
  "map_of kvs (js ''answers'') = Some a \<Longrightarrow> truthy a \<Longrightarrow> Object_entries a = Inr entries \<Longrightarrow>
   parseImport pc (Denotes (JObj kvs)) s =
     Inr (setSuccess (js ''Archivo importado correctamente.'')
            (goToStep pc (importedStep pc (map_of kvs (js ''currentStep'')))
              (s\<lparr> answers := sanitizedAnswers entries \<rparr>)))"
  by (simp add: parseImport_def JSON_parse_def)

lemma parseImport_currentStep:
  "parseImport pc t s = Inr s' \<Longrightarrow> in_range pc (currentStep s')"
  by (auto dest!: parseImport_Inr
      simp: currentStep_setSuccess currentStep_goToStep clamp_step_in_range in_range_importedStep)

lemma handleFiles_in_range:
  "in_range pc (currentStep s) \<Longrightarrow> in_range pc (currentStep (handleFiles pc files s))"
  by (auto simp: handleFiles_def currentStep_setError parseImport_currentStep
      split: option.splits list.splits picked_file.splits sum.splits)

lemma stringify_export_payload:
  "stringify_value (export_payload now (Fin r) a) = export_payload now (Fin r) a"
  by (auto simp: export_payload_def split: prod.splits)

lemma export_payload_answers:
  "export_payload now step a = JObj kvs \<Longrightarrow>
   map_of kvs (js ''answers'') = Some (JObj (map (\<lambda>(k, v). (k, JStr v)) a))"
  by (auto simp: export_payload_def js_Nil js_Cons)

lemma export_payload_currentStep:
  "export_payload now step a = JObj kvs \<Longrightarrow> map_of kvs (js ''currentStep'') = Some (JNum step)"
  by (auto simp: export_payload_def js_Nil js_Cons)

lemma map_of_exported_answers:
  "map_of (map (\<lambda>(k, v). (k, JStr v)) a) k = map_option JStr (map_of a k)"
  by (induction a) auto

lemma map_fst_exported_answers: "map fst (map (\<lambda>(k, v). (k, JStr v)) a) = map fst a"
  by (simp add: case_prod_beta comp_def)

lemma sanitized_exported_answers:
  assumes "wf_answers a"
  shows "map_of (sanitizedAnswers (map (\<lambda>(k, v). (k, JStr v)) a)) = map_of a"
proof
  fix k
  have d: "distinct (map fst (map (\<lambda>(k, v). (k, JStr v)) a))"
    unfolding map_fst_exported_answers using assms by (simp add: wf_answers_def)
  have p: "map_of a (js ''__proto__'') = None"
    using assms by (simp add: wf_answers_def map_of_eq_None_iff)
  show "map_of (sanitizedAnswers (map (\<lambda>(k, v). (k, JStr v)) a)) k = map_of a k"
    using p by (cases "map_of a k") (auto simp: sanitizedAnswers_lookup [OF d] map_of_exported_answers)
qed

lemmas import_eval = parseImport_def JSON_parse_def js_Nil js_Cons sanitizedAnswers_def
  keep_string_def assign_prop_def importedStep_def clamp_step_Fin clamp_step_PosInf
  clamp_step_NegInf goToStep_def setSuccess_def setError_def initial_state_def
  handleInputChange_def handleExport_def JSON_stringify_def export_payload_def
  in_range_def wf_answers_def handleFiles_def

lemma parseImport_isl_iff:
  "isl (parseImport pageCount t s) \<longleftrightarrow>
      t = Malformed
      \<or> (\<exists>v. t = Denotes v \<and> (\<forall>kvs. v \<noteq> JObj kvs))
      \<or> (\<exists>kvs. t = Denotes (JObj kvs) \<and> map_of kvs (js ''answers'') = None)
      \<or> (\<exists>kvs a. t = Denotes (JObj kvs) \<and> map_of kvs (js ''answers'') = Some a \<and> \<not> truthy a)"
proof (cases t)
  case Malformed
  then show ?thesis by (simp add: parseImport_def JSON_parse_def)
next
  case (Denotes v)
  show ?thesis
  proof (cases "\<exists>kvs. v = JObj kvs")
    case False
    then have "isl (parseImport pageCount t s)"
      using Denotes by (cases v) (simp_all add: parseImport_def JSON_parse_def)
    then show ?thesis using Denotes False by simp
  next
    case True
    then obtain kvs where v: "v = JObj kvs" by blast
    show ?thesis
    proof (cases "map_of kvs (js ''answers'')")
      case None
      then show ?thesis using Denotes v by (simp add: parseImport_def JSON_parse_def)
    next
      case (Some a)
      show ?thesis
      proof (cases "truthy a")
        case True
        then obtain entries where "Object_entries a = Inr entries"
          using Object_entries_truthy by blast
        then show ?thesis using Denotes v Some True by (simp add: parseImport_def JSON_parse_def)
      next
        case False
        then show ?thesis using Denotes v Some by (simp add: parseImport_def JSON_parse_def)
      qed
    qed
  qed
qed

lemma handleFiles_failed:
  "isl (parseImport pageCount t s) \<Longrightarrow>
   handleFiles pageCount (Some (Readable t # fs)) s = setError unrecognized_text s"
  by (cases "parseImport pageCount t s") (simp_all add: handleFiles_def)

lemma Object_entries_ab:
  "Object_entries (JStr (js ''ab'')) = Inr [(js ''0'', JStr (js ''a'')), (js ''1'', JStr (js ''b''))]"
  by (simp add: js_Nil js_Cons upt_rec Number_toString.simps digit_unit_def)

lemma get_answer_define_prop:
  "get_answer (define_prop a k v) k' = (if k' = k then v else get_answer a k')"
  by (simp add: get_answer_def map_of_define_prop)

text \<open>Every answer map the program holds is well formed.\<close>

lemma wf_answers_initial: "wf_answers (answers initial_state)"
  by (simp add: initial_state_def wf_answers_def)

lemma wf_answers_handleInputChange:
  "wf_answers (answers s) \<Longrightarrow>
   wf_answers (answers (handleInputChange (makeFieldId U pageIndex question) v s))"
  by (simp add: handleInputChange_def wf_define_prop makeFieldId_not_proto)

lemma wf_answers_parseImport:
  "parseImport pageCount t s = Inr s' \<Longrightarrow> wf_answers (answers s')"
  by (auto dest!: parseImport_Inr simp: answers_setSuccess answers_goToStep wf_sanitizedAnswers)

lemma wf_answers_handleFiles:
  "wf_answers (answers s) \<Longrightarrow> wf_answers (answers (handleFiles pageCount files s))"
  by (auto simp: handleFiles_def answers_setError wf_answers_parseImport
      split: option.splits list.splits picked_file.splits sum.splits)

lemma wf_answers_navigation:
  "answers (goToStep pageCount x s) = answers s"
  "answers (handleNext pageCount now s) = answers s"
  "answers (handleBack pageCount s) = answers s"
  "answers (handleExport now s) = answers s"
  by (simp_all add: handleNext_def handleBack_def answers_goToStep answers_handleExport)

text \<open>The example of the specification: a numeric entry is dropped, the step is clamped,
  and nothing of the answers held before is left.\<close>

lemma import_example:
  "map_sum id (\<lambda>s. (answers s, currentStep s))
     (parseImport 3
        (Denotes (JObj [(js ''answers'', JObj [(js ''x'', JStr (js ''y'')), (js ''z'', JNum (Fin 42))]),
                        (js ''currentStep'', JNum (Fin 99))]))
        (handleInputChange (js ''step-0-nombre'') (js ''Acme'') initial_state))
   = Inr ([(js ''x'', js ''y'')], Fin 3)"
  by (simp add: import_eval)

section \<open>The claims on the session state\<close>

text \<open>
  Claim C1. For a step within \<open>[0, pageCount]\<close> and an answer map as the program
  holds them (each key once, none of them \<^verbatim>\<open>__proto__\<close>), the export offers one
  file, and importing the text of that file, into whatever state, succeeds and gives
  the exported step and an answer map with the same entries. The
  envelope fields \<^verbatim>\<open>version\<close> and \<^verbatim>\<open>exportedAt\<close> are not read back.
\<close>

theorem export_import_roundtrip:
  assumes "in_range pageCount (currentStep s)" and "wf_answers (answers s)"
  shows "\<exists>t s'. downloads (handleExport now s) = downloads s @ [(js ''busup-canvas.json'', t)]
           \<and> parseImport pageCount t s0 = Inr s'
           \<and> currentStep s' = currentStep s
           \<and> map_of (answers s') = map_of (answers s)"
proof -
  obtain r where r: "currentStep s = Fin r"
    using assms(1) by (cases "currentStep s") (simp_all add: in_range_def)
  define doc where "doc = export_payload now (Fin r) (answers s)"
  obtain kvs where kvs: "doc = JObj kvs" by (simp add: doc_def export_payload_def)
  define entries where "entries = map (\<lambda>(k, v). (k, JStr v)) (answers s)"
  define s' where "s' = setSuccess (js ''Archivo importado correctamente.'')
            (goToStep pageCount (importedStep pageCount (map_of kvs (js ''currentStep'')))
              (s0\<lparr> answers := sanitizedAnswers entries \<rparr>))"
  have a: "map_of kvs (js ''answers'') = Some (JObj entries)"
    using kvs export_payload_answers [of now "Fin r" "answers s" kvs] by (simp add: doc_def entries_def)
  have c: "map_of kvs (js ''currentStep'') = Some (JNum (Fin r))"
    using kvs export_payload_currentStep [of now "Fin r" "answers s" kvs] by (simp add: doc_def)
  have dl: "downloads (handleExport now s) = downloads s @ [(js ''busup-canvas.json'', Denotes doc)]"
    by (simp add: handleExport_def setSuccess_def JSON_stringify_def r doc_def stringify_export_payload)
  have imp: "parseImport pageCount (Denotes doc) s0 = Inr s'"
    unfolding kvs s'_def by (rule parseImport_JObj [OF a]) simp_all
  have "importedStep pageCount (Some (JNum (Fin r))) = Fin r"
    using assms(1) by (simp add: importedStep_def r clamp_step_in_range)
  then have st: "currentStep s' = currentStep s"
    using assms(1) by (simp add: s'_def c currentStep_setSuccess currentStep_goToStep r clamp_step_in_range)
  have an: "map_of (answers s') = map_of (answers s)"
    using sanitized_exported_answers [OF assms(2)]
    by (simp add: s'_def answers_setSuccess answers_goToStep entries_def)
  from dl imp st an show ?thesis by blast
qed

theorem export_import_roundtrip_witness:
  "in_range 2 (currentStep (handleInputChange (js ''step-0-nombre'') (js ''Acme'') initial_state))
   \<and> wf_answers (answers (handleInputChange (js ''step-0-nombre'') (js ''Acme'') initial_state))
   \<and> (\<exists>t s'. downloads (handleExport (js ''2024-01-01T00:00:00.000Z'')
                   (handleInputChange (js ''step-0-nombre'') (js ''Acme'') initial_state))
              = downloads (handleInputChange (js ''step-0-nombre'') (js ''Acme'') initial_state)
                  @ [(js ''busup-canvas.json'', t)]
           \<and> parseImport 2 t initial_state = Inr s'
           \<and> currentStep s' = currentStep (handleInputChange (js ''step-0-nombre'') (js ''Acme'') initial_state)
           \<and> map_of (answers s') = map_of (answers (handleInputChange (js ''step-0-nombre'') (js ''Acme'') initial_state)))"
proof -
  have h1: "in_range 2 (currentStep (handleInputChange (js ''step-0-nombre'') (js ''Acme'') initial_state))"
    by (simp add: import_eval)
  have h2: "wf_answers (answers (handleInputChange (js ''step-0-nombre'') (js ''Acme'') initial_state))"
    by (simp add: import_eval)
  from h1 h2 export_import_roundtrip [OF h1 h2] show ?thesis by blast
qed

text \<open>
  Claim C2, as stated: the import fails exactly when the text is not well-formed, the
  parsed value is not an object, or the object lacks the field \<^verbatim>\<open>answers\<close>. It fails
  too on \<^verbatim>\<open>{"answers": false}\<close>: a well-formed text, an object, the field present.
\<close>

theorem falsy_answers_rejected:
  "JSON_parse (Denotes (JObj [(js ''answers'', JBool False)]))
     = Inr (JObj [(js ''answers'', JBool False)])
   \<and> get_prop (JObj [(js ''answers'', JBool False)]) (js ''answers'') = Some (JBool False)
   \<and> isl (parseImport 3 (Denotes (JObj [(js ''answers'', JBool False)])) initial_state)"
  by (simp add: import_eval)

text \<open>
  Claim C2, amended: the import fails exactly when the text is not well-formed, or the
  parsed value is not an object (null, a primitive, an array), or the object has no
  field \<^verbatim>\<open>answers\<close>, or the value of that field is falsy. After a failed import the
  answer map and the step are what they were, and the error message is shown.
\<close>

theorem import_failure:
  "(isl (parseImport pageCount t s) \<longleftrightarrow>
      t = Malformed
      \<or> (\<exists>v. t = Denotes v \<and> (\<forall>kvs. v \<noteq> JObj kvs))
      \<or> (\<exists>kvs. t = Denotes (JObj kvs) \<and> map_of kvs (js ''answers'') = None)
      \<or> (\<exists>kvs a. t = Denotes (JObj kvs) \<and> map_of kvs (js ''answers'') = Some a \<and> \<not> truthy a))
   \<and> (isl (parseImport pageCount t s) \<longrightarrow>
        answers (handleFiles pageCount (Some (Readable t # fs)) s) = answers s
      \<and> currentStep (handleFiles pageCount (Some (Readable t # fs)) s) = currentStep s
      \<and> statusMessage (handleFiles pageCount (Some (Readable t # fs)) s)
          = Some \<lparr> msg_type = error, msg_text = unrecognized_text \<rparr>)"
  using parseImport_isl_iff [of pageCount t s]
  by (simp add: handleFiles_failed setError_def)

theorem import_failure_witness:
  "isl (parseImport 3 Malformed initial_state)
   \<and> answers (handleFiles 3 (Some [Readable Malformed]) initial_state) = answers initial_state
   \<and> currentStep (handleFiles 3 (Some [Readable Malformed]) initial_state) = currentStep initial_state
   \<and> isl (parseImport 3 (Denotes (JObj [(js ''currentStep'', JNum (Fin 1))])) initial_state)
   \<and> isl (parseImport 3 (Denotes (JObj [(js ''answers'', JNull)])) initial_state)
   \<and> isl (parseImport 3 (Denotes (JArr [])) initial_state)
   \<and> \<not> isl (parseImport 3 (Denotes (JObj [(js ''answers'', JObj [])])) initial_state)"
proof -
  have h: "isl (parseImport 3 Malformed initial_state)" by (simp add: import_eval)
  have 1: "isl (parseImport 3 (Denotes (JObj [(js ''currentStep'', JNum (Fin 1))])) initial_state)"
    using import_failure [of 3 "Denotes (JObj [(js ''currentStep'', JNum (Fin 1))])" initial_state "[]"]
    by (simp add: js_Nil js_Cons)
  have 2: "isl (parseImport 3 (Denotes (JObj [(js ''answers'', JNull)])) initial_state)"
    using import_failure [of 3 "Denotes (JObj [(js ''answers'', JNull)])" initial_state "[]"]
    by simp
  have 3: "isl (parseImport 3 (Denotes (JArr [])) initial_state)"
    using import_failure [of 3 "Denotes (JArr [])" initial_state "[]"] by simp
  have 4: "\<not> isl (parseImport 3 (Denotes (JObj [(js ''answers'', JObj [])])) initial_state)"
    using import_failure [of 3 "Denotes (JObj [(js ''answers'', JObj [])])" initial_state "[]"] by simp
  from import_failure [of 3 Malformed initial_state "[]"] h 1 2 3 4 show ?thesis by blast
qed

text \<open>
  Claim C3, as stated: a \<^verbatim>\<open>currentStep\<close> that is not a finite number makes the step 0.
  With three pages, the document \<^verbatim>\<open>{"answers": {}, "currentStep": 1e400}\<close>, whose
  step parses to \<^verbatim>\<open>Infinity\<close>, sets the step to 3.
\<close>

theorem infinite_step_accepted:
  "map_sum id currentStep
     (parseImport 3 (Denotes (JObj [(js ''answers'', JObj []), (js ''currentStep'', JNum PosInf)]))
        initial_state) = Inr (Fin 3)"
  by (simp add: import_eval)

text \<open>
  Claim C3, amended: after a successful import the step is within \<open>[0, pageCount]\<close>;
  a finite \<^verbatim>\<open>currentStep\<close> is clamped into that range, \<^verbatim>\<open>Infinity\<close> gives
  \<open>pageCount\<close>, \<^verbatim>\<open>-Infinity\<close> gives 0, and NaN, a value that is no number, or a
  missing field give 0.
\<close>

theorem imported_step:
  assumes "parseImport pageCount t s = Inr s'" and "JSON_parse t = Inr parsed"
  shows "in_range pageCount (currentStep s')
    \<and> (\<forall>r. get_prop parsed (js ''currentStep'') = Some (JNum (Fin r)) \<longrightarrow>
          currentStep s' = Fin (max 0 (min r (of_nat pageCount))))
    \<and> (get_prop parsed (js ''currentStep'') = Some (JNum PosInf) \<longrightarrow>
          currentStep s' = Fin (of_nat pageCount))
    \<and> (get_prop parsed (js ''currentStep'') = Some (JNum NegInf) \<longrightarrow> currentStep s' = Fin 0)
    \<and> (get_prop parsed (js ''currentStep'') = Some (JNum NaN)
         \<or> (\<forall>n. get_prop parsed (js ''currentStep'') \<noteq> Some (JNum n)) \<longrightarrow>
          currentStep s' = Fin 0)"
proof -
  obtain kvs a entries where t: "t = Denotes (JObj kvs)"
    and s': "s' = setSuccess (js ''Archivo importado correctamente.'')
            (goToStep pageCount (importedStep pageCount (map_of kvs (js ''currentStep'')))
              (s\<lparr> answers := sanitizedAnswers entries \<rparr>))"
    using parseImport_Inr [OF assms(1)] by blast
  have p: "parsed = JObj kvs" using assms(2) t by (simp add: JSON_parse_def)
  have c: "currentStep s' = importedStep pageCount (map_of kvs (js ''currentStep''))"
    by (simp add: s' currentStep_setSuccess currentStep_goToStep clamp_step_in_range
        in_range_importedStep)
  have 0: "in_range pageCount (currentStep s')"
    by (simp add: c in_range_importedStep)
  have 1: "\<forall>r. get_prop parsed (js ''currentStep'') = Some (JNum (Fin r)) \<longrightarrow>
          currentStep s' = Fin (max 0 (min r (of_nat pageCount)))"
    by (simp add: p c importedStep_def clamp_step_Fin)
  have 2: "get_prop parsed (js ''currentStep'') = Some (JNum PosInf) \<longrightarrow>
          currentStep s' = Fin (of_nat pageCount)"
    by (simp add: p c importedStep_def clamp_step_PosInf)
  have 3: "get_prop parsed (js ''currentStep'') = Some (JNum NegInf) \<longrightarrow> currentStep s' = Fin 0"
    by (simp add: p c importedStep_def clamp_step_NegInf)
  have 4: "get_prop parsed (js ''currentStep'') = Some (JNum NaN)
         \<or> (\<forall>n. get_prop parsed (js ''currentStep'') \<noteq> Some (JNum n)) \<longrightarrow>
          currentStep s' = Fin 0"
    by (auto simp: p c importedStep_def split: option.splits json.splits)
  from 0 1 2 3 4 show ?thesis by blast
qed

theorem imported_step_witness:
  "(\<exists>s'. parseImport 3 (Denotes (JObj [(js ''answers'', JObj [(js ''x'', JStr (js ''y''))]),
                                       (js ''currentStep'', JNum (Fin 99))])) initial_state = Inr s'
         \<and> in_range 3 (currentStep s') \<and> currentStep s' = Fin 3)
   \<and> (\<exists>s'. parseImport 3 (Denotes (JObj [(js ''answers'', JObj []),
                                       (js ''currentStep'', JNum (Fin (-2)))])) initial_state = Inr s'
         \<and> currentStep s' = Fin 0)
   \<and> (\<exists>s'. parseImport 3 (Denotes (JObj [(js ''answers'', JObj []),
                                       (js ''currentStep'', JStr (js ''2''))])) initial_state = Inr s'
         \<and> currentStep s' = Fin 0)"
proof -
  define t1 where "t1 = Denotes (JObj [(js ''answers'', JObj [(js ''x'', JStr (js ''y''))]),
                                       (js ''currentStep'', JNum (Fin 99))])"
  define t2 where "t2 = Denotes (JObj [(js ''answers'', JObj []),
                                       (js ''currentStep'', JNum (Fin (-2)))])"
  define t3 where "t3 = Denotes (JObj [(js ''answers'', JObj []),
                                       (js ''currentStep'', JStr (js ''2''))])"
  obtain s1 where s1: "parseImport 3 t1 initial_state = Inr s1"
    by (simp add: t1_def parseImport_def JSON_parse_def js_Nil js_Cons)
  obtain s2 where s2: "parseImport 3 t2 initial_state = Inr s2"
    by (simp add: t2_def parseImport_def JSON_parse_def js_Nil js_Cons)
  obtain s3 where s3: "parseImport 3 t3 initial_state = Inr s3"
    by (simp add: t3_def parseImport_def JSON_parse_def js_Nil js_Cons)
  have p1: "JSON_parse t1 = Inr (JObj [(js ''answers'', JObj [(js ''x'', JStr (js ''y''))]),
                                       (js ''currentStep'', JNum (Fin 99))])"
    by (simp add: t1_def JSON_parse_def)
  have p2: "JSON_parse t2 = Inr (JObj [(js ''answers'', JObj []),
                                       (js ''currentStep'', JNum (Fin (-2)))])"
    by (simp add: t2_def JSON_parse_def)
  have p3: "JSON_parse t3 = Inr (JObj [(js ''answers'', JObj []),
                                       (js ''currentStep'', JStr (js ''2''))])"
    by (simp add: t3_def JSON_parse_def)
  have "in_range 3 (currentStep s1) \<and> currentStep s1 = Fin 3"
    using imported_step [OF s1 p1] by (simp add: js_Nil js_Cons in_range_def)
  moreover have "currentStep s2 = Fin 0"
    using imported_step [OF s2 p2] by (simp add: js_Nil js_Cons)
  moreover have "currentStep s3 = Fin 0"
    using imported_step [OF s3 p3] by (simp add: js_Nil js_Cons)
  ultimately show ?thesis
    using s1 s2 s3 unfolding t1_def t2_def t3_def by blast
qed

text \<open>
  Claim C4 says that every entry of \<^verbatim>\<open>answers\<close> with a string value is kept. The
  entry under the key \<^verbatim>\<open>__proto__\<close> is not: importing
  \<^verbatim>\<open>{"answers": {"__proto__": "x"}}\<close> succeeds with an empty answer map.
\<close>

theorem proto_entry_dropped:
  "map_sum id answers
     (parseImport 3 (Denotes (JObj [(js ''answers'', JObj [(js ''__proto__'', JStr (js ''x''))])]))
        initial_state) = Inr []"
  by (simp add: import_eval)

theorem proto_entry_dropped_witness:
  "\<exists>s'. parseImport 3 (Denotes (JObj [(js ''answers'', JObj [(js ''__proto__'', JStr (js ''x''))])]))
           initial_state = Inr s'
        \<and> map_of (answers s') (js ''__proto__'') = None"
  using proto_entry_dropped
  by (cases "parseImport 3 (Denotes (JObj [(js ''answers'', JObj [(js ''__proto__'', JStr (js ''x''))])]))
           initial_state") simp_all

text \<open>
  Claim C7. \<open>goToStep\<close> on any integer gives a step within \<open>[0, pageCount]\<close>; from a
  state whose step is within that range every operation leads to such a state; and
  \<open>handleBack\<close> at step 0 stays at step 0.
\<close>

theorem step_in_range:
  "in_range pageCount (currentStep (goToStep pageCount (Fin (of_int n)) s))
   \<and> (in_range pageCount (currentStep s) \<longrightarrow>
        in_range pageCount (currentStep (goToStep pageCount (Fin (of_int n)) s))
      \<and> in_range pageCount (currentStep (handleNext pageCount now s))
      \<and> in_range pageCount (currentStep (handleBack pageCount s))
      \<and> in_range pageCount (currentStep (handleInputChange fieldId v s))
      \<and> in_range pageCount (currentStep (handleExport now s))
      \<and> in_range pageCount (currentStep (handleFiles pageCount files s))
      \<and> in_range pageCount (currentStep (handleDrop pageCount files s))
      \<and> in_range pageCount (currentStep (handleDragOver hasFiles s))
      \<and> in_range pageCount (currentStep (handleDragLeave leftWindow s)))
   \<and> (currentStep s = Fin 0 \<longrightarrow> currentStep (handleBack pageCount s) = Fin 0)"
proof -
  have g: "in_range pageCount (currentStep (goToStep pageCount (Fin (of_int n)) s))"
    by (simp add: currentStep_goToStep in_range_clamp_step)
  have b: "currentStep s = Fin 0 \<longrightarrow> currentStep (handleBack pageCount s) = Fin 0"
    by (simp add: handleBack_def currentStep_goToStep js_sub_def clamp_step_Fin)
  have inv: "in_range pageCount (currentStep (handleNext pageCount now s))
      \<and> in_range pageCount (currentStep (handleBack pageCount s))
      \<and> in_range pageCount (currentStep (handleInputChange fieldId v s))
      \<and> in_range pageCount (currentStep (handleExport now s))
      \<and> in_range pageCount (currentStep (handleFiles pageCount files s))
      \<and> in_range pageCount (currentStep (handleDrop pageCount files s))
      \<and> in_range pageCount (currentStep (handleDragOver hasFiles s))
      \<and> in_range pageCount (currentStep (handleDragLeave leftWindow s))"
    if r: "in_range pageCount (currentStep s)"
  proof -
    have nn: "currentStep s \<noteq> NaN" using r by (rule in_range_not_NaN)
    have 1: "in_range pageCount (currentStep (handleNext pageCount now s))"
      using r nn by (simp add: handleNext_def currentStep_handleExport currentStep_goToStep
          in_range_clamp_step js_add_one)
    have 2: "in_range pageCount (currentStep (handleBack pageCount s))"
      using nn by (simp add: handleBack_def currentStep_goToStep in_range_clamp_step js_sub_one)
    have 3: "in_range pageCount (currentStep (handleInputChange fieldId v s))"
      using r by (simp add: handleInputChange_def)
    have 4: "in_range pageCount (currentStep (handleExport now s))"
      using r by (simp add: currentStep_handleExport)
    have 5: "in_range pageCount (currentStep (handleFiles pageCount files s))"
      using r by (rule handleFiles_in_range)
    have r': "in_range pageCount (currentStep (s\<lparr> dragActive := False \<rparr>))" using r by simp
    have 6: "in_range pageCount (currentStep (handleDrop pageCount files s))"
      using r handleFiles_in_range [OF r']
      by (simp add: handleDrop_def split: option.splits list.splits)
    have 7: "in_range pageCount (currentStep (handleDragOver hasFiles s))"
      using r by (simp add: handleDragOver_def)
    have 8: "in_range pageCount (currentStep (handleDragLeave leftWindow s))"
      using r by (simp add: handleDragLeave_def)
    from 1 2 3 4 5 6 7 8 show ?thesis by blast
  qed
  from g b inv show ?thesis by blast
qed

theorem step_in_range_witness:
  "in_range 3 (currentStep initial_state)
   \<and> currentStep initial_state = Fin 0
   \<and> currentStep (handleBack 3 initial_state) = Fin 0
   \<and> in_range 3 (currentStep (goToStep 3 (Fin (of_int (- 7))) initial_state))
   \<and> in_range 3 (currentStep (goToStep 3 (Fin (of_int 1000000)) initial_state))
   \<and> in_range 3 (currentStep (handleNext 3 (js ''now'') initial_state))"
proof -
  have h: "in_range 3 (currentStep initial_state)" by (simp add: initial_state_def in_range_def)
  have z: "currentStep initial_state = Fin 0" by (simp add: initial_state_def)
  from h z step_in_range [of 3 "- 7" initial_state "js ''now''" "[]" "[]" None False False]
    step_in_range [of 3 1000000 initial_state "js ''now''" "[]" "[]" None False False]
  show ?thesis by blast
qed

text \<open>
  Claim C8. At the summary step \<open>handleNext\<close> is the export: one more file is offered
  and the step stays. At any other step it is \<open>goToStep\<close> on the step plus one and
  offers no file; from page \<open>k\<close> below \<open>pageCount\<close> that is page \<open>k + 1\<close>.
\<close>

theorem handleNext_cases:
  "(isSummaryStep pageCount s \<longrightarrow>
        handleNext pageCount now s = handleExport now s
      \<and> currentStep (handleNext pageCount now s) = currentStep s
      \<and> answers (handleNext pageCount now s) = answers s
      \<and> downloads (handleNext pageCount now s) =
          downloads s @ [(js ''busup-canvas.json'',
                          JSON_stringify (export_payload now (currentStep s) (answers s)))])
   \<and> (\<not> isSummaryStep pageCount s \<longrightarrow>
        handleNext pageCount now s = goToStep pageCount (js_add (currentStep s) (Fin 1)) s
      \<and> downloads (handleNext pageCount now s) = downloads s)
   \<and> (\<forall>k. currentStep s = Fin (of_nat k) \<and> k < pageCount \<longrightarrow>
        currentStep (handleNext pageCount now s) = Fin (of_nat k + 1))
   \<and> (isSummaryStep pageCount s \<longleftrightarrow> currentStep s = Fin (of_nat pageCount))"
proof -
  have 1: "isSummaryStep pageCount s \<longrightarrow>
        handleNext pageCount now s = handleExport now s
      \<and> currentStep (handleNext pageCount now s) = currentStep s
      \<and> answers (handleNext pageCount now s) = answers s
      \<and> downloads (handleNext pageCount now s) =
          downloads s @ [(js ''busup-canvas.json'',
                          JSON_stringify (export_payload now (currentStep s) (answers s)))]"
    by (simp add: handleNext_def handleExport_def setSuccess_def)
  have 2: "\<not> isSummaryStep pageCount s \<longrightarrow>
        handleNext pageCount now s = goToStep pageCount (js_add (currentStep s) (Fin 1)) s
      \<and> downloads (handleNext pageCount now s) = downloads s"
    by (simp add: handleNext_def goToStep_def)
  have 3: "\<forall>k. currentStep s = Fin (of_nat k) \<and> k < pageCount \<longrightarrow>
        currentStep (handleNext pageCount now s) = Fin (of_nat k + 1)"
  proof (intro allI impI)
    fix k assume k: "currentStep s = Fin (of_nat k) \<and> k < pageCount"
    then have ns: "\<not> isSummaryStep pageCount s"
      by (simp add: isSummaryStep_def js_strict_eq_def)
    have "(of_nat k :: rat) + 1 \<le> of_nat pageCount"
      using k by (metis Suc_leI of_nat_Suc of_nat_le_iff add.commute)
    moreover have "(0 :: rat) \<le> of_nat k + 1" by simp
    ultimately show "currentStep (handleNext pageCount now s) = Fin (of_nat k + 1)"
      using k ns by (simp add: handleNext_def currentStep_goToStep clamp_step_Fin)
  qed
  have 4: "isSummaryStep pageCount s \<longleftrightarrow> currentStep s = Fin (of_nat pageCount)"
    by (auto simp: isSummaryStep_def js_strict_eq_def)
  from 1 2 3 4 show ?thesis by blast
qed

theorem handleNext_cases_witness:
  "isSummaryStep 3 (goToStep 3 (Fin 3) initial_state)
   \<and> currentStep (handleNext 3 (js ''now'') (goToStep 3 (Fin 3) initial_state)) = Fin 3
   \<and> downloads (handleNext 3 (js ''now'') (goToStep 3 (Fin 3) initial_state)) =
        [(js ''busup-canvas.json'', JSON_stringify (export_payload (js ''now'') (Fin 3) []))]
   \<and> \<not> isSummaryStep 3 initial_state
   \<and> currentStep (handleNext 3 (js ''now'') initial_state) = Fin 1
   \<and> downloads (handleNext 3 (js ''now'') initial_state) = []"
proof -
  have a: "isSummaryStep 3 (goToStep 3 (Fin 3) initial_state)"
    by (simp add: isSummaryStep_def js_strict_eq_def goToStep_def clamp_step_Fin)
  have b: "\<not> isSummaryStep 3 initial_state"
    by (simp add: isSummaryStep_def js_strict_eq_def initial_state_def)
  have c: "currentStep (goToStep 3 (Fin 3) initial_state) = Fin 3"
    "answers (goToStep 3 (Fin 3) initial_state) = []"
    "downloads (goToStep 3 (Fin 3) initial_state) = []"
    by (simp_all add: goToStep_def clamp_step_Fin initial_state_def)
  have d: "currentStep initial_state = Fin (of_nat 0) \<and> 0 < (3::nat)"
    "downloads initial_state = []"
    by (simp_all add: initial_state_def)
  from handleNext_cases [of 3 "goToStep 3 (Fin 3) initial_state" "js ''now''"] a c
  have 1: "currentStep (handleNext 3 (js ''now'') (goToStep 3 (Fin 3) initial_state)) = Fin 3
     \<and> downloads (handleNext 3 (js ''now'') (goToStep 3 (Fin 3) initial_state)) =
        [(js ''busup-canvas.json'', JSON_stringify (export_payload (js ''now'') (Fin 3) []))]"
    unfolding c append_Nil by blast
  from handleNext_cases [of 3 initial_state "js ''now''"] b d
  have 2: "currentStep (handleNext 3 (js ''now'') initial_state) = Fin 1
     \<and> downloads (handleNext 3 (js ''now'') initial_state) = []"
    by auto
  from a b 1 2 show ?thesis by blast
qed

text \<open>
  Claim C9. A document whose \<^verbatim>\<open>answers\<close> is falsy (null, 0, false, the empty string)
  is rejected; one whose \<^verbatim>\<open>answers\<close> is truthy, a string or an array included, is
  accepted, and the new answer map is made of the entries that \<^verbatim>\<open>Object.entries\<close>
  lists. \<^verbatim>\<open>{"answers": "ab"}\<close> imports as the map of 0 to a and 1 to b.
\<close>

theorem answers_truthiness:
  "(\<forall>kvs a. t = Denotes (JObj kvs) \<and> map_of kvs (js ''answers'') = Some a \<longrightarrow>
      (\<not> truthy a \<longrightarrow> parseImport pageCount t s = Inl (Error no_answers_text))
    \<and> (truthy a \<longrightarrow>
         (\<exists>entries s'. Object_entries a = Inr entries
            \<and> parseImport pageCount t s = Inr s'
            \<and> answers s' = sanitizedAnswers entries)))
   \<and> \<not> truthy JNull \<and> \<not> truthy (JNum (Fin 0)) \<and> \<not> truthy (JBool False) \<and> \<not> truthy (JStr [])
   \<and> truthy (JStr (js ''ab'')) \<and> truthy (JArr vs) \<and> truthy (JObj kvs')
   \<and> map_sum id answers (parseImport pageCount (Denotes (JObj [(js ''answers'', JStr (js ''ab''))])) s)
       = Inr [(js ''0'', js ''a''), (js ''1'', js ''b'')]"
proof -
  have 1: "\<forall>kvs a. t = Denotes (JObj kvs) \<and> map_of kvs (js ''answers'') = Some a \<longrightarrow>
      (\<not> truthy a \<longrightarrow> parseImport pageCount t s = Inl (Error no_answers_text))
    \<and> (truthy a \<longrightarrow>
         (\<exists>entries s'. Object_entries a = Inr entries
            \<and> parseImport pageCount t s = Inr s'
            \<and> answers s' = sanitizedAnswers entries))"
  proof (intro allI impI conjI)
    fix kvs a
    assume h: "t = Denotes (JObj kvs) \<and> map_of kvs (js ''answers'') = Some a" and "\<not> truthy a"
    then show "parseImport pageCount t s = Inl (Error no_answers_text)"
      by (simp add: parseImport_def JSON_parse_def)
  next
    fix kvs a
    assume h: "t = Denotes (JObj kvs) \<and> map_of kvs (js ''answers'') = Some a" and tr: "truthy a"
    obtain entries where e: "Object_entries a = Inr entries"
      using Object_entries_truthy [OF tr] by blast
    have "parseImport pageCount t s =
        Inr (setSuccess (js ''Archivo importado correctamente.'')
            (goToStep pageCount (importedStep pageCount (map_of kvs (js ''currentStep'')))
              (s\<lparr> answers := sanitizedAnswers entries \<rparr>)))"
      using h parseImport_JObj [OF _ tr e, of kvs pageCount s] by simp
    then show "\<exists>entries s'. Object_entries a = Inr entries
            \<and> parseImport pageCount t s = Inr s'
            \<and> answers s' = sanitizedAnswers entries"
      using e by (simp add: answers_setSuccess answers_goToStep)
  qed
  have 2: "\<not> truthy JNull \<and> \<not> truthy (JNum (Fin 0)) \<and> \<not> truthy (JBool False) \<and> \<not> truthy (JStr [])
   \<and> truthy (JStr (js ''ab'')) \<and> truthy (JArr vs) \<and> truthy (JObj kvs')"
    by (simp add: js_Cons)
  have m: "map_of [(js ''answers'', JStr (js ''ab''))] (js ''answers'') = Some (JStr (js ''ab''))"
    by simp
  have tr: "truthy (JStr (js ''ab''))" by (simp add: js_Cons)
  have sa: "sanitizedAnswers [(js ''0'', JStr (js ''a'')), (js ''1'', JStr (js ''b''))]
      = [(js ''0'', js ''a''), (js ''1'', js ''b'')]"
    by (simp add: sanitizedAnswers_def keep_string_def assign_prop_def js_Nil js_Cons)
  have 3: "map_sum id answers (parseImport pageCount (Denotes (JObj [(js ''answers'', JStr (js ''ab''))])) s)
       = Inr [(js ''0'', js ''a''), (js ''1'', js ''b'')]"
    by (simp only: parseImport_JObj [OF m tr Object_entries_ab] sa map_sum.simps answers_setSuccess
        answers_goToStep) simp
  from 1 2 3 show ?thesis by blast
qed

theorem answers_truthiness_witness:
  "parseImport 3 (Denotes (JObj [(js ''answers'', JNull)])) initial_state
     = Inl (Error no_answers_text)
   \<and> parseImport 3 (Denotes (JObj [(js ''answers'', JStr [])])) initial_state
     = Inl (Error no_answers_text)
   \<and> (\<exists>entries s'. Object_entries (JArr [JStr (js ''p''), JNum (Fin 1)]) = Inr entries
        \<and> parseImport 3 (Denotes (JObj [(js ''answers'', JArr [JStr (js ''p''), JNum (Fin 1)])]))
             initial_state = Inr s'
        \<and> answers s' = sanitizedAnswers entries)
   \<and> map_sum id answers
        (parseImport 3 (Denotes (JObj [(js ''answers'', JStr (js ''ab''))])) initial_state)
       = Inr [(js ''0'', js ''a''), (js ''1'', js ''b'')]"
proof -
  have 1: "parseImport 3 (Denotes (JObj [(js ''answers'', JNull)])) initial_state
     = Inl (Error no_answers_text)"
    using answers_truthiness [of "Denotes (JObj [(js ''answers'', JNull)])" 3 initial_state "[]" "[]"]
    by simp
  have 2: "parseImport 3 (Denotes (JObj [(js ''answers'', JStr [])])) initial_state
     = Inl (Error no_answers_text)"
    using answers_truthiness [of "Denotes (JObj [(js ''answers'', JStr [])])" 3 initial_state "[]" "[]"]
    by simp
  have 3: "\<exists>entries s'. Object_entries (JArr [JStr (js ''p''), JNum (Fin 1)]) = Inr entries
        \<and> parseImport 3 (Denotes (JObj [(js ''answers'', JArr [JStr (js ''p''), JNum (Fin 1)])]))
             initial_state = Inr s'
        \<and> answers s' = sanitizedAnswers entries"
    using answers_truthiness [of "Denotes (JObj [(js ''answers'', JArr [JStr (js ''p''), JNum (Fin 1)])])" 3
        initial_state "[]" "[]"]
    by simp
  have 4: "map_sum id answers
        (parseImport 3 (Denotes (JObj [(js ''answers'', JStr (js ''ab''))])) initial_state)
       = Inr [(js ''0'', js ''a''), (js ''1'', js ''b'')]"
    using answers_truthiness [of Malformed 3 initial_state "[]" "[]"] by blast
  from 1 2 3 4 show ?thesis by blast
qed

text \<open>
  Claim C10. \<open>handleInputChange\<close> stores the value under the field identifier, leaves
  the answer under every other identifier as it was, and changes neither the step nor
  anything else of the state.
\<close>

theorem handleInputChange_frame:
  "currentStep (handleInputChange fieldId v s) = currentStep s
   \<and> statusMessage (handleInputChange fieldId v s) = statusMessage s
   \<and> downloads (handleInputChange fieldId v s) = downloads s
   \<and> get_answer (answers (handleInputChange fieldId v s)) fieldId = v
   \<and> (\<forall>id'. id' \<noteq> fieldId \<longrightarrow>
         get_answer (answers (handleInputChange fieldId v s)) id' = get_answer (answers s) id'
       \<and> map_of (answers (handleInputChange fieldId v s)) id' = map_of (answers s) id')"
  by (simp add: handleInputChange_def get_answer_define_prop map_of_define_prop)

theorem handleInputChange_frame_witness:
  "js ''step-0-nombre'' \<noteq> js ''step-1-meta''
   \<and> get_answer (answers (handleInputChange (js ''step-1-meta'') (js ''Crecer'')
          (handleInputChange (js ''step-0-nombre'') (js ''Acme'') initial_state)))
        (js ''step-0-nombre'') = js ''Acme''
   \<and> get_answer (answers (handleInputChange (js ''step-1-meta'') (js ''Crecer'')
          (handleInputChange (js ''step-0-nombre'') (js ''Acme'') initial_state)))
        (js ''step-1-meta'') = js ''Crecer''
   \<and> currentStep (handleInputChange (js ''step-1-meta'') (js ''Crecer'')
          (handleInputChange (js ''step-0-nombre'') (js ''Acme'') initial_state)) = Fin 0"
proof -
  have ne: "js ''step-0-nombre'' \<noteq> js ''step-1-meta''" by (simp add: js_Nil js_Cons)
  have g: "get_answer (answers (handleInputChange (js ''step-0-nombre'') (js ''Acme'') initial_state))
      (js ''step-0-nombre'') = js ''Acme''"
    by (simp add: handleInputChange_def initial_state_def get_answer_def)
  have c: "currentStep (handleInputChange (js ''step-0-nombre'') (js ''Acme'') initial_state) = Fin 0"
    by (simp add: handleInputChange_def initial_state_def)
  from handleInputChange_frame [of "js ''step-1-meta''" "js ''Crecer''"
      "handleInputChange (js ''step-0-nombre'') (js ''Acme'') initial_state"] ne g c
  show ?thesis by (simp only:) simp
qed

end
